theory Spec2Isabelle
  imports Complex_Main "HOL-Library.Monad_Syntax"
begin

section \<open>ARShooter: gesture, target field, aim assist, score and round control\<close>

text \<open>
  A shallow embedding of the deterministic game logic of the repository.
  A JavaScript \<open>number\<close> is modelled as a \<^typ>\<open>real\<close> (counters that only ever hold
  naturals as \<^typ>\<open>nat\<close>, the rounded score as \<^typ>\<open>int\<close>); the wall clock
  \<open>performance.now()\<close> is an explicit argument \<open>now\<close> of every function that reads it;
  \<open>Math.random()\<close> is an explicit supply of draws threaded through the state that consumes
  it. Three.js meshes, materials and the scene graph are presentation and are left out; the
  numeric fields the logic reads are kept.

  Names are the source's. Where two classes share a method name the later one carries the
  class as a prefix (\<open>gm_update\<close> of GameManager, \<open>ss_update\<close> of ShootingSystem,
  \<open>gd_reset\<close> of GestureDetector); the coordinate fields \<open>x\<close>, \<open>y\<close>, \<open>z\<close> are \<open>lx\<close>, \<open>ly\<close>,
  \<open>lz\<close> on a landmark and \<open>px\<close>, \<open>py\<close> on a screen position, and the trophy's \<open>id\<close> is
  \<open>trophy_id\<close>.
\<close>

subsection \<open>ScoreManager (src/game/ScoreManager.ts)\<close>

record ScoreManager =
  score :: int
  combo :: nat
  maxCombo :: nat
  lastHitTime :: real
  onChangeCalls :: nat  \<comment> \<open>how often \<open>this.onChange?.()\<close> has been reached\<close>

definition comboTimeout :: real where
  "comboTimeout = 2000"

definition basePoints :: real where
  "basePoints = 100"

text \<open>The field initialisers of the class.\<close>

definition newScoreManager :: ScoreManager where
  "newScoreManager =
     \<lparr>score = 0, combo = 0, maxCombo = 0, lastHitTime = 0, onChangeCalls = 0\<rparr>"

text \<open>\<open>Math.round\<close>: the nearest integer, a half rounding towards \<open>+\<infinity>\<close>.\<close>

definition Math_round :: "real \<Rightarrow> int" where
  "Math_round v = \<lfloor>v + 1 / 2\<rfloor>"

definition getMultiplier :: "ScoreManager \<Rightarrow> real" where
  "getMultiplier s =
     (if combo s \<ge> 20 then 5
      else if combo s \<ge> 10 then 3
      else if combo s \<ge> 5 then 2
      else if combo s \<ge> 3 then 3 / 2
      else 1)"

record HitResult =
  hr_points :: int
  hr_combo :: nat
  hr_multiplier :: real

text \<open>\<open>hit(tierMultiplier)\<close>, read at wall-clock time \<open>now\<close>: the result and the new state.\<close>

definition hit :: "real \<Rightarrow> real \<Rightarrow> ScoreManager \<Rightarrow> HitResult \<times> ScoreManager" where
  "hit tierMultiplier now s =
     (let s1 = (if now - lastHitTime s > comboTimeout \<and> combo s > 0
                then s\<lparr>combo := 0\<rparr> else s);
          s2 = s1\<lparr>combo := combo s1 + 1\<rparr>;
          s3 = s2\<lparr>lastHitTime := now\<rparr>;
          s4 = (if combo s3 > maxCombo s3 then s3\<lparr>maxCombo := combo s3\<rparr> else s3);
          multiplier = getMultiplier s4;
          points = Math_round (basePoints * multiplier * tierMultiplier);
          s5 = s4\<lparr>score := score s4 + points\<rparr>;
          s6 = s5\<lparr>onChangeCalls := onChangeCalls s5 + 1\<rparr>
      in (\<lparr>hr_points = points, hr_combo = combo s6, hr_multiplier = multiplier\<rparr>, s6))"

definition miss :: "ScoreManager \<Rightarrow> ScoreManager" where
  "miss s = s\<lparr>combo := 0, onChangeCalls := onChangeCalls s + 1\<rparr>"

definition getScore :: "ScoreManager \<Rightarrow> int" where
  "getScore s = score s"

definition getCombo :: "ScoreManager \<Rightarrow> nat" where
  "getCombo s = combo s"

definition reset :: "ScoreManager \<Rightarrow> ScoreManager" where
  "reset s = s\<lparr>score := 0, combo := 0, maxCombo := 0, lastHitTime := 0,
                onChangeCalls := onChangeCalls s + 1\<rparr>"

text \<open>A round of scoring events as the game loop issues them: a hit with its tier
  multiplier and the time it is read at, or a miss.\<close>

datatype ScoreEvent = Hit real real | Miss

fun applyScoreEvent :: "ScoreManager \<Rightarrow> ScoreEvent \<Rightarrow> ScoreManager" where
  "applyScoreEvent s (Hit tierMultiplier now) = snd (hit tierMultiplier now s)"
| "applyScoreEvent s Miss = miss s"

text \<open>The states after each event of a round, in order.\<close>

fun scoreTrace :: "ScoreManager \<Rightarrow> ScoreEvent list \<Rightarrow> ScoreManager list" where
  "scoreTrace s [] = []"
| "scoreTrace s (e # es) = applyScoreEvent s e # scoreTrace (applyScoreEvent s e) es"


subsection \<open>SceneManager (src/engine/SceneManager.ts): the viewport the logic reads\<close>

record Vector2 =
  v2x :: real
  v2y :: real

record Vector3 =
  v3x :: real
  v3y :: real
  v3z :: real

record SceneManager =
  width :: real
  height :: real

definition screenToWorld :: "SceneManager \<Rightarrow> real \<Rightarrow> real \<Rightarrow> Vector3" where
  "screenToWorld sc sx sy = \<lparr>v3x = sx - width sc / 2, v3y = height sc / 2 - sy, v3z = 0\<rparr>"

subsection \<open>DiscManager (src/game/DiscManager.ts, the trophy version)\<close>

datatype TrophyTier = gold | silver | bronze

record Trophy =
  trophy_id :: nat
  velocity :: Vector2
  alive :: bool
  screenX :: real
  screenY :: real
  radius :: real
  tier :: TrophyTier

text \<open>A shatter fragment: the position of its mesh, the size of its geometry and the
  opacity of its material are the only mesh data kept.\<close>

record Fragment =
  frag_position :: Vector3
  frag_size :: real
  frag_opacity :: real
  frag_velocity :: Vector3
  life :: real

text \<open>The fields of the class, the viewport of the scene it holds a reference to, and the
  supply of \<open>Math.random()\<close> draws with the number of draws taken so far.\<close>

record DiscManager =
  scene :: SceneManager
  trophies :: "Trophy list"
  nextId :: nat
  fragments :: "Fragment list"
  elapsedTime :: real
  randomDraws :: "nat \<Rightarrow> real"
  randomPos :: nat

definition TIER_WEIGHTS :: "(TrophyTier \<times> real) list" where
  "TIER_WEIGHTS = [(bronze, 55 / 100), (silver, 85 / 100), (gold, 1)]"

fun TIER_SPEED_MULT :: "TrophyTier \<Rightarrow> real" where
  "TIER_SPEED_MULT bronze = 1"
| "TIER_SPEED_MULT silver = 12 / 10"
| "TIER_SPEED_MULT gold = 15 / 10"

fun TIER_HIT_RADIUS :: "TrophyTier \<Rightarrow> real" where
  "TIER_HIT_RADIUS bronze = 90"
| "TIER_HIT_RADIUS silver = 80"
| "TIER_HIT_RADIUS gold = 65"

definition TARGET_COUNT :: nat where
  "TARGET_COUNT = 4"

definition BASE_SPEED_MIN :: real where
  "BASE_SPEED_MIN = 60"

definition BASE_SPEED_MAX :: real where
  "BASE_SPEED_MAX = 120"

definition SPEED_RAMP_INTERVAL :: real where
  "SPEED_RAMP_INTERVAL = 30"

definition SPEED_RAMP_AMOUNT :: real where
  "SPEED_RAMP_AMOUNT = 15"

definition SPEED_RAMP_MAX :: real where
  "SPEED_RAMP_MAX = 80"

text \<open>The constructor: the field initialisers, for a given scene and random supply.\<close>

definition newDiscManager :: "SceneManager \<Rightarrow> (nat \<Rightarrow> real) \<Rightarrow> DiscManager" where
  "newDiscManager sc draws =
     \<lparr>scene = sc, trophies = [], nextId = 0, fragments = [], elapsedTime = 0,
      randomDraws = draws, randomPos = 0\<rparr>"

definition Math_random :: "DiscManager \<Rightarrow> real \<times> DiscManager" where
  "Math_random st = (randomDraws st (randomPos st), st\<lparr>randomPos := randomPos st + 1\<rparr>)"

definition getSpeedBonus :: "DiscManager \<Rightarrow> real" where
  "getSpeedBonus st =
     (let intervals = real_of_int \<lfloor>elapsedTime st / SPEED_RAMP_INTERVAL\<rfloor>
      in min (intervals * SPEED_RAMP_AMOUNT) SPEED_RAMP_MAX)"

fun pickTier_loop :: "real \<Rightarrow> (TrophyTier \<times> real) list \<Rightarrow> TrophyTier" where
  "pickTier_loop r [] = bronze"
| "pickTier_loop r ((t, threshold) # ws) = (if r < threshold then t else pickTier_loop r ws)"

definition pickTier :: "DiscManager \<Rightarrow> TrophyTier \<times> DiscManager" where
  "pickTier st = (let (r, st1) = Math_random st in (pickTier_loop r TIER_WEIGHTS, st1))"

text \<open>
  \<open>spawnTrophy()\<close>. The draws are taken in the order of the source: tier, edge, the point
  along the edge, the two jitters of the target point, the speed. The division \<open>dx / dist\<close>
  is HOL's (zero for \<open>dist = 0\<close>, where JavaScript yields \<open>NaN\<close>); no property below reads
  the velocity of a trophy spawned with \<open>dist = 0\<close>.
\<close>

definition spawnTrophy :: "DiscManager \<Rightarrow> DiscManager" where
  "spawnTrophy st =
     (let w = width (scene st); h = height (scene st);
          (tr, st1) = pickTier st;
          (r_edge, st2) = Math_random st1;
          edge = \<lfloor>r_edge * 4\<rfloor>;
          margin = 60;
          (r_start, st3) = Math_random st2;
          (startX, startY) =
            (if edge = 0 then (r_start * w, - margin)
             else if edge = 1 then (w + margin, r_start * h)
             else if edge = 2 then (r_start * w, h + margin)
             else (- margin, r_start * h));
          (r_tx, st4) = Math_random st3;
          targetX = w / 2 + (r_tx - 1 / 2) * w * (4 / 10);
          (r_ty, st5) = Math_random st4;
          targetY = h / 2 + (r_ty - 1 / 2) * h * (4 / 10);
          dx = targetX - startX;
          dy = targetY - startY;
          dist = sqrt (dx * dx + dy * dy);
          bonus = getSpeedBonus st5;
          (r_speed, st6) = Math_random st5;
          baseSpeed = BASE_SPEED_MIN + bonus + r_speed * (BASE_SPEED_MAX - BASE_SPEED_MIN);
          speed = baseSpeed * TIER_SPEED_MULT tr;
          vel = \<lparr>v2x = (dx / dist) * speed, v2y = (dy / dist) * speed\<rparr>;
          trophy = \<lparr>trophy_id = nextId st6, velocity = vel, alive = True,
                    screenX = startX, screenY = startY,
                    radius = TIER_HIT_RADIUS tr, tier = tr\<rparr>
      in st6\<lparr>trophies := trophies st6 @ [trophy], nextId := nextId st6 + 1\<rparr>)"

text \<open>\<open>start()\<close>: the counting loop \<open>for (let i = 0; i < TARGET_COUNT; i++)\<close>.\<close>

function start_loop :: "nat \<Rightarrow> DiscManager \<Rightarrow> DiscManager" where
  "start_loop i st = (if i < TARGET_COUNT then start_loop (i + 1) (spawnTrophy st) else st)"
  by pat_completeness auto
termination
  by (relation "measure (\<lambda>(i, st). TARGET_COUNT - i)") auto

definition start :: "DiscManager \<Rightarrow> DiscManager" where
  "start st = start_loop 0 st"

definition removeTrophy :: "Trophy \<Rightarrow> Trophy" where
  "removeTrophy t = t\<lparr>alive := False\<rparr>"

text \<open>The body of the loop over the trophies in \<open>update\<close>, for one trophy.\<close>

definition moveTrophy :: "real \<Rightarrow> real \<Rightarrow> real \<Rightarrow> Trophy \<Rightarrow> Trophy" where
  "moveTrophy dt w h t =
     (if \<not> alive t then t
      else let t1 = t\<lparr>screenX := screenX t + v2x (velocity t) * dt\<rparr>;
               t2 = t1\<lparr>screenY := screenY t1 + v2y (velocity t1) * dt\<rparr>;
               margin = 100
           in if screenX t2 < - margin \<or> screenX t2 > w + margin \<or>
                 screenY t2 < - margin \<or> screenY t2 > h + margin
              then removeTrophy t2 else t2)"

text \<open>The body of the loop over the fragments in \<open>update\<close>, before the removal test.\<close>

definition updateFragment :: "real \<Rightarrow> Fragment \<Rightarrow> Fragment" where
  "updateFragment dt f =
     (let v = frag_velocity f; p = frag_position f;
          p1 = \<lparr>v3x = v3x p + v3x v * dt, v3y = v3y p + v3y v * dt, v3z = v3z p + v3z v * dt\<rparr>;
          v1 = v\<lparr>v3y := v3y v - 400 * dt\<rparr>;
          life1 = life f - dt
      in f\<lparr>frag_position := p1, frag_velocity := v1, life := life1,
            frag_opacity := max 0 (life1 / (8 / 10))\<rparr>)"


lemma spawnTrophy_trophies:
  "\<exists>t. trophies (spawnTrophy st) = trophies st @ [t] \<and> alive t"
  by (simp add: spawnTrophy_def pickTier_def Math_random_def Let_def case_prod_beta)

lemma length_spawnTrophy [simp]:
  "length (trophies (spawnTrophy st)) = length (trophies st) + 1"
  using spawnTrophy_trophies [of st] by auto

text \<open>The replenishing loop \<open>while (this.trophies.length < TARGET_COUNT) this.spawnTrophy()\<close>.
  Every pass lengthens the list by one, so it ends.\<close>

function replenish :: "DiscManager \<Rightarrow> DiscManager" where
  "replenish st =
     (if length (trophies st) < TARGET_COUNT then replenish (spawnTrophy st) else st)"
  by pat_completeness auto
termination
  by (relation "measure (\<lambda>st. TARGET_COUNT - length (trophies st))") auto

text \<open>\<open>update(dt)\<close>. The fragment loop runs from the last index down and splices the dead
  fragments out, which keeps the others in their order.\<close>

definition update :: "real \<Rightarrow> DiscManager \<Rightarrow> DiscManager" where
  "update dt st =
     (let st1 = st\<lparr>elapsedTime := elapsedTime st + dt\<rparr>;
          w = width (scene st1); h = height (scene st1);
          st2 = st1\<lparr>trophies := map (moveTrophy dt w h) (trophies st1)\<rparr>;
          st3 = st2\<lparr>fragments :=
                  filter (\<lambda>f. \<not> life f \<le> 0) (map (updateFragment dt) (fragments st2))\<rparr>;
          st4 = st3\<lparr>trophies := filter alive (trophies st3)\<rparr>
      in replenish st4)"

text \<open>The fragment loop of \<open>shatterTrophy\<close>: four draws for each fragment (geometry size,
  angle, speed, depth speed), in the order of the source.\<close>

function shatter_loop :: "nat \<Rightarrow> nat \<Rightarrow> Vector3 \<Rightarrow> DiscManager \<Rightarrow> DiscManager" where
  "shatter_loop i fragCount pos st =
     (if i < fragCount then
        (let (r_size, st1) = Math_random st;
             (r_angle, st2) = Math_random st1;
             angle = (pi * 2 * real i) / real fragCount + r_angle * (1 / 2);
             (r_spd, st3) = Math_random st2;
             spd = 200 + r_spd * 300;
             (r_z, st4) = Math_random st3;
             fragVelocity = \<lparr>v3x = cos angle * spd, v3y = sin angle * spd + 100,
                             v3z = (r_z - 1 / 2) * 200\<rparr>;
             frag = \<lparr>frag_position = pos, frag_size = 6 + r_size * 8, frag_opacity = 1,
                     frag_velocity = fragVelocity, life = 8 / 10\<rparr>
         in shatter_loop (i + 1) fragCount pos (st4\<lparr>fragments := fragments st4 @ [frag]\<rparr>))
      else st)"
  by pat_completeness auto
termination
  by (relation "measure (\<lambda>(i, fragCount, pos, st). fragCount - i)") auto

text \<open>The three loops are unfolded by hand where a proof needs it.\<close>

declare start_loop.simps [simp del]

declare replenish.simps [simp del]

declare shatter_loop.simps [simp del]

text \<open>\<open>shatterTrophy(trophy)\<close>, the trophy given by its index in \<open>this.trophies\<close>: the
  source holds a reference to the list element and clears its \<open>alive\<close> flag in place.\<close>

definition shatterTrophy :: "nat \<Rightarrow> DiscManager \<Rightarrow> DiscManager" where
  "shatterTrophy k st =
     (let trophy = trophies st ! k;
          st1 = st\<lparr>trophies := (trophies st)[k := trophy\<lparr>alive := False\<rparr>]\<rparr>;
          pos = screenToWorld (scene st1) (screenX trophy) (screenY trophy);
          fragCount = (if tier trophy = gold then 12 else if tier trophy = silver then 10 else 8)
      in shatter_loop 0 fragCount pos st1)"

text \<open>The scan of \<open>checkHit\<close>. \<open>closest\<close> is the index of the trophy held so far together
  with \<open>closestDist\<close>; \<open>None\<close> is the initial \<open>closest = null\<close>, \<open>closestDist = Infinity\<close>,
  which every distance is below.\<close>

fun checkHit_loop ::
  "real \<Rightarrow> real \<Rightarrow> Trophy list \<Rightarrow> nat \<Rightarrow> (nat \<times> real) option \<Rightarrow> (nat \<times> real) option" where
  "checkHit_loop sx sy [] k closest = closest"
| "checkHit_loop sx sy (trophy # rest) k closest =
     (if \<not> alive trophy then checkHit_loop sx sy rest (k + 1) closest
      else let dx = sx - screenX trophy;
               dy = sy - screenY trophy;
               dist = sqrt (dx * dx + dy * dy)
           in if dist < radius trophy \<and>
                 (case closest of None \<Rightarrow> True | Some (c, closestDist) \<Rightarrow> dist < closestDist)
              then checkHit_loop sx sy rest (k + 1) (Some (k, dist))
              else checkHit_loop sx sy rest (k + 1) closest)"

record HitInfo =
  hit_x :: real
  hit_y :: real
  hit_tier :: TrophyTier

text \<open>\<open>checkHit(screenX, screenY)\<close>: the result (\<open>None\<close> for \<open>null\<close>) and the new state.\<close>

definition checkHit :: "real \<Rightarrow> real \<Rightarrow> DiscManager \<Rightarrow> HitInfo option \<times> DiscManager" where
  "checkHit sx sy st =
     (case checkHit_loop sx sy (trophies st) 0 None of
        Some (k, d) \<Rightarrow>
          (let closest = trophies st ! k;
               result = \<lparr>hit_x = screenX closest, hit_y = screenY closest,
                         hit_tier = tier closest\<rparr>
           in (Some result, shatterTrophy k st))
      | None \<Rightarrow> (None, st))"

record ScreenPosition =
  px :: real
  py :: real

definition getDiscPositions :: "DiscManager \<Rightarrow> ScreenPosition list" where
  "getDiscPositions st =
     map (\<lambda>t. \<lparr>px = screenX t, py = screenY t\<rparr>) (filter alive (trophies st))"

text \<open>\<open>dispose()\<close>: every trophy is removed (its \<open>alive\<close> flag cleared) and both lists are
  replaced by empty ones; no other field is written.\<close>

definition dispose :: "DiscManager \<Rightarrow> DiscManager" where
  "dispose st =
     (let st1 = st\<lparr>trophies := map removeTrophy (trophies st)\<rparr>
      in st1\<lparr>trophies := [], fragments := []\<rparr>)"

text \<open>The number of live targets.\<close>

definition liveCount :: "DiscManager \<Rightarrow> nat" where
  "liveCount st = length (filter alive (trophies st))"

subsection \<open>GameManager (src/game/GameManager.ts)\<close>

datatype GameState = IDLE | PLAYING | GAME_OVER

definition ROUND_DURATION :: real where
  "ROUND_DURATION = 60"

text \<open>The manager with the two objects it holds references to; \<open>onGameOverCalls\<close> counts
  how often \<open>this.onGameOver?.()\<close> has been reached.\<close>

record GameManager =
  state :: GameState
  timeRemaining :: real
  scoreManager :: ScoreManager
  discManager :: DiscManager
  onGameOverCalls :: nat

definition newGameManager :: "ScoreManager \<Rightarrow> DiscManager \<Rightarrow> GameManager" where
  "newGameManager sm dm =
     \<lparr>state = IDLE, timeRemaining = ROUND_DURATION, scoreManager = sm, discManager = dm,
      onGameOverCalls = 0\<rparr>"

definition startGame :: "GameManager \<Rightarrow> GameManager" where
  "startGame g =
     (if state g = PLAYING then g
      else g\<lparr>state := PLAYING, timeRemaining := ROUND_DURATION,
             scoreManager := reset (scoreManager g),
             discManager := start (discManager g)\<rparr>)"

definition endGame :: "GameManager \<Rightarrow> GameManager" where
  "endGame g =
     (if state g \<noteq> PLAYING then g
      else g\<lparr>state := GAME_OVER, onGameOverCalls := onGameOverCalls g + 1\<rparr>)"

text \<open>\<open>GameManager.update(dt)\<close>.\<close>

definition gm_update :: "real \<Rightarrow> GameManager \<Rightarrow> GameManager" where
  "gm_update dt g =
     (if state g \<noteq> PLAYING then g
      else let g1 = g\<lparr>timeRemaining := timeRemaining g - dt\<rparr>
           in if timeRemaining g1 \<le> 0 then endGame (g1\<lparr>timeRemaining := 0\<rparr>) else g1)"

definition restart :: "GameManager \<Rightarrow> GameManager" where
  "restart g = g\<lparr>state := IDLE\<rparr>"

definition getState :: "GameManager \<Rightarrow> GameState" where
  "getState g = state g"

definition getTimeRemaining :: "GameManager \<Rightarrow> real" where
  "getTimeRemaining g = timeRemaining g"

text \<open>The four calls of the controller, and a run of them.\<close>

datatype GameCall = StartGame | Update real | EndGame | Restart

fun applyGameCall :: "GameManager \<Rightarrow> GameCall \<Rightarrow> GameManager" where
  "applyGameCall g StartGame = startGame g"
| "applyGameCall g (Update dt) = gm_update dt g"
| "applyGameCall g EndGame = endGame g"
| "applyGameCall g Restart = restart g"


subsection \<open>GestureDetector (src/tracking/GestureDetector.ts)\<close>

record HandLandmark =
  lx :: real
  ly :: real
  lz :: real

record GestureState =
  isPistol :: bool
  aimPosition :: "ScreenPosition option"
  handBase :: "ScreenPosition option"
  triggered :: bool

record DebugInfo =
  hasHand :: bool
  indexExtended :: bool
  curledCount :: nat
  thumbAngle :: real
  dbg_isPistol :: bool
  dbg_triggered :: bool

record GestureDetector =
  lastShotTime :: real
  debugInfo :: DebugInfo

definition SHOOT_COOLDOWN :: real where
  "SHOOT_COOLDOWN = 500"

definition THUMB_BENT_ANGLE :: real where
  "THUMB_BENT_ANGLE = 155"

definition newGestureDetector :: GestureDetector where
  "newGestureDetector =
     \<lparr>lastShotTime = 0,
      debugInfo = \<lparr>hasHand = False, indexExtended = False, curledCount = 0, thumbAngle = 180,
                   dbg_isPistol = False, dbg_triggered = False\<rparr>\<rparr>"

text \<open>Angle (degrees) at joint \<open>b\<close>, formed by the points \<open>a\<close>, \<open>b\<close>, \<open>c\<close>.\<close>

definition angleAtJoint :: "HandLandmark \<Rightarrow> HandLandmark \<Rightarrow> HandLandmark \<Rightarrow> real" where
  "angleAtJoint a b c =
     (let v1x = lx a - lx b; v1y = ly a - ly b; v1z = lz a - lz b;
          v2x = lx c - lx b; v2y = ly c - ly b; v2z = lz c - lz b;
          dot = v1x * v2x + v1y * v2y + v1z * v2z;
          mag1 = sqrt (v1x ^ 2 + v1y ^ 2 + v1z ^ 2);
          mag2 = sqrt (v2x ^ 2 + v2y ^ 2 + v2z ^ 2)
      in if mag1 < 1 / 10000 \<or> mag2 < 1 / 10000 then 180
         else let cosAngle = max (- 1) (min 1 (dot / (mag1 * mag2)))
              in arccos cosAngle * (180 / pi))"

definition dist3D :: "HandLandmark \<Rightarrow> HandLandmark \<Rightarrow> real" where
  "dist3D a b =
     (let dx = lx a - lx b; dy = ly a - ly b; dz = lz a - lz b
      in sqrt (dx * dx + dy * dy + dz * dz))"

text \<open>Reading \<open>landmarks[k]\<close> and then a field of it: beyond the end of the array the
  element is \<open>undefined\<close> and the field access raises a TypeError, which is \<open>None\<close> here.\<close>

definition landmarkAt :: "HandLandmark list \<Rightarrow> nat \<Rightarrow> HandLandmark option" where
  "landmarkAt landmarks k = (if k < length landmarks then Some (landmarks ! k) else None)"

definition noGesture :: GestureState where
  "noGesture = \<lparr>isPistol = False, aimPosition = None, handBase = None, triggered = False\<rparr>"

text \<open>\<open>detect(landmarks, screenWidth, screenHeight)\<close>, read at wall-clock time \<open>now\<close>.
  The landmark list is \<open>None\<close> for \<open>null\<close>. The value is \<open>None\<close> when the call raises, and
  otherwise the result with the new state of the detector.\<close>

definition detect ::
  "HandLandmark list option \<Rightarrow> real \<Rightarrow> real \<Rightarrow> real \<Rightarrow> GestureDetector
     \<Rightarrow> (GestureState \<times> GestureDetector) option" where
  "detect landmarks screenWidth screenHeight now d =
     (case landmarks of
        None \<Rightarrow> Some (noGesture, d\<lparr>debugInfo := (debugInfo d)\<lparr>hasHand := False\<rparr>\<rparr>)
      | Some lms \<Rightarrow>
          if length lms < 21
          then Some (noGesture, d\<lparr>debugInfo := (debugInfo d)\<lparr>hasHand := False\<rparr>\<rparr>)
          else do {
            wrist \<leftarrow> landmarkAt lms 0;
            l8 \<leftarrow> landmarkAt lms 8;
            l6 \<leftarrow> landmarkAt lms 6;
            l12 \<leftarrow> landmarkAt lms 12;
            l10 \<leftarrow> landmarkAt lms 10;
            l16 \<leftarrow> landmarkAt lms 16;
            l14 \<leftarrow> landmarkAt lms 14;
            l20 \<leftarrow> landmarkAt lms 20;
            l18 \<leftarrow> landmarkAt lms 18;
            l2 \<leftarrow> landmarkAt lms 2;
            l3 \<leftarrow> landmarkAt lms 3;
            l4 \<leftarrow> landmarkAt lms 4;
            (let idxTipW = dist3D l8 wrist;
                 idxPipW = dist3D l6 wrist;
                 midTipW = dist3D l12 wrist;
                 midPipW = dist3D l10 wrist;
                 ringTipW = dist3D l16 wrist;
                 ringPipW = dist3D l14 wrist;
                 pinkyTipW = dist3D l20 wrist;
                 pinkyPipW = dist3D l18 wrist;
                 idxExt = idxTipW > idxPipW;
                 curled = (if midTipW < midPipW * (115 / 100) then 1 else 0) +
                          (if ringTipW < ringPipW * (115 / 100) then 1 else 0) +
                          (if pinkyTipW < pinkyPipW * (115 / 100) then 1 else (0::nat));
                 pistol = (idxExt \<and> curled \<ge> 1);
                 aim = \<lparr>px = (1 - lx l8) * screenWidth, py = ly l8 * screenHeight\<rparr>;
                 base = \<lparr>px = (1 - lx wrist) * screenWidth, py = ly wrist * screenHeight\<rparr>;
                 angle = angleAtJoint l2 l3 l4;
                 trig = (angle < THUMB_BENT_ANGLE \<and> now - lastShotTime d > SHOOT_COOLDOWN);
                 d1 = (if trig then d\<lparr>lastShotTime := now\<rparr> else d);
                 d2 = d1\<lparr>debugInfo := \<lparr>hasHand = True, indexExtended = idxExt,
                                         curledCount = curled, thumbAngle = angle,
                                         dbg_isPistol = pistol, dbg_triggered = trig\<rparr>\<rparr>
             in Some (\<lparr>isPistol = pistol, aimPosition = Some aim, handBase = Some base,
                       triggered = trig\<rparr>, d2))
          })"

text \<open>\<open>GestureDetector.reset()\<close>.\<close>

definition gd_reset :: "GestureDetector \<Rightarrow> GestureDetector" where
  "gd_reset d = d\<lparr>lastShotTime := 0\<rparr>"

text \<open>The thumb angle \<open>detect\<close> computes for a frame of at least 21 landmarks.\<close>

definition thumbAngleOf :: "HandLandmark list \<Rightarrow> real" where
  "thumbAngleOf lms = angleAtJoint (lms ! 2) (lms ! 3) (lms ! 4)"

subsection \<open>ShootingSystem (src/game/ShootingSystem.ts): the aim assist\<close>

definition AIM_ASSIST_RADIUS :: real where
  "AIM_ASSIST_RADIUS = 150"

definition AIM_ASSIST_STRENGTH :: real where
  "AIM_ASSIST_STRENGTH = 45 / 100"

text \<open>The aim state of the class and the two visibility flags \<open>update\<close> writes.\<close>

record ShootingSystem =
  currentAim :: ScreenPosition
  isLocked :: bool
  crosshairVisible :: bool
  laserVisible :: bool

text \<open>The variables of the scan in \<open>update\<close>; \<open>closestDist = None\<close> is the initial
  \<open>Infinity\<close>, which every distance is below.\<close>

record AssistScan =
  aimX :: real
  aimY :: real
  locked :: bool
  closestDist :: "real option"

fun assist_loop :: "ScreenPosition \<Rightarrow> ScreenPosition list \<Rightarrow> AssistScan \<Rightarrow> AssistScan" where
  "assist_loop rawAim [] a = a"
| "assist_loop rawAim (disc # rest) a =
     (let dx = px rawAim - px disc;
          dy = py rawAim - py disc;
          dist = sqrt (dx * dx + dy * dy)
      in if dist < AIM_ASSIST_RADIUS \<and>
            (case closestDist a of None \<Rightarrow> True | Some c \<Rightarrow> dist < c)
         then let pullStrength = AIM_ASSIST_STRENGTH * (1 - dist / AIM_ASSIST_RADIUS)
              in assist_loop rawAim rest
                   \<lparr>aimX = px rawAim + (px disc - px rawAim) * pullStrength,
                    aimY = py rawAim + (py disc - py rawAim) * pullStrength,
                    locked = (dist < AIM_ASSIST_RADIUS * (1 / 2)),
                    closestDist = Some dist\<rparr>
         else assist_loop rawAim rest a)"

text \<open>\<open>ShootingSystem.update(rawAim, handBase, discPositions)\<close>: the returned aim point
  (\<open>None\<close> for \<open>null\<close>) and the new state.\<close>

definition ss_update ::
  "ScreenPosition option \<Rightarrow> ScreenPosition option \<Rightarrow> ScreenPosition list \<Rightarrow> ShootingSystem
     \<Rightarrow> ScreenPosition option \<times> ShootingSystem" where
  "ss_update rawAim handBase_opt discPositions s =
     (case (rawAim, handBase_opt) of
        (Some raw, Some hb) \<Rightarrow>
          (let a = assist_loop raw discPositions
                     \<lparr>aimX = px raw, aimY = py raw, locked = False, closestDist = None\<rparr>;
               s1 = s\<lparr>isLocked := locked a, currentAim := \<lparr>px = aimX a, py = aimY a\<rparr>,
                      crosshairVisible := True, laserVisible := True\<rparr>
           in (Some (currentAim s1), s1))
      | _ \<Rightarrow> (None, s\<lparr>crosshairVisible := False, laserVisible := False\<rparr>))"

definition isTargetLocked :: "ShootingSystem \<Rightarrow> bool" where
  "isTargetLocked s = isLocked s"

text \<open>The distance \<open>update\<close> computes between the raw aim point and a target position.\<close>

definition aimDist :: "ScreenPosition \<Rightarrow> ScreenPosition \<Rightarrow> real" where
  "aimDist rawAim disc =
     sqrt ((px rawAim - px disc) * (px rawAim - px disc) +
           (py rawAim - py disc) * (py rawAim - py disc))"


subsection \<open>Runs and sample values used by the properties\<close>

text \<open>The results of a run of hits, each given by its tier multiplier and the time it is
  read at.\<close>

fun hitResults :: "ScoreManager \<Rightarrow> (real \<times> real) list \<Rightarrow> HitResult list" where
  "hitResults s [] = []"
| "hitResults s ((tierMultiplier, now) # rest) =
     fst (hit tierMultiplier now s) # hitResults (snd (hit tierMultiplier now s)) rest"

fun nonNegativeTier :: "ScoreEvent \<Rightarrow> bool" where
  "nonNegativeTier (Hit tierMultiplier now) = (0 \<le> tierMultiplier)"
| "nonNegativeTier Miss = True"

text \<open>A score engine in the middle of a combo.\<close>

definition scoreMid :: ScoreManager where
  "scoreMid = \<lparr>score = 350, combo = 3, maxCombo = 3, lastHitTime = 1000, onChangeCalls = 3\<rparr>"

text \<open>A freshly constructed target field on an 800 by 600 viewport whose every random
  draw is one half.\<close>

definition field0 :: DiscManager where
  "field0 = newDiscManager \<lparr>width = 800, height = 600\<rparr> (\<lambda>n. 1 / 2)"

text \<open>A frame handed to \<open>detect\<close> (landmarks, viewport, clock reading), and the results of
  a run of frames through one detector; \<open>None\<close> if a call raises.\<close>

record Frame =
  f_landmarks :: "HandLandmark list option"
  f_width :: real
  f_height :: real
  f_now :: real

fun detectRun :: "GestureDetector \<Rightarrow> Frame list \<Rightarrow> GestureState list option" where
  "detectRun d [] = Some []"
| "detectRun d (f # fs) =
     (case detect (f_landmarks f) (f_width f) (f_height f) (f_now f) d of
        None \<Rightarrow> None
      | Some (r, d') \<Rightarrow> map_option ((#) r) (detectRun d' fs))"

definition origin :: HandLandmark where
  "origin = \<lparr>lx = 0, ly = 0, lz = 0\<rparr>"

text \<open>Three hands of 21 landmarks: the thumb joints 2, 3, 4 form a right angle, an angle of
  exactly 155 degrees, and a straight line.\<close>

definition bentFrame :: "HandLandmark list" where
  "bentFrame =
     [origin, origin, \<lparr>lx = 0, ly = 1, lz = 0\<rparr>, origin, \<lparr>lx = 1, ly = 0, lz = 0\<rparr>,
      origin, origin, origin, origin, origin, origin, origin, origin, origin, origin, origin,
      origin, origin, origin, origin, origin]"

definition boundaryFrame :: "HandLandmark list" where
  "boundaryFrame =
     [origin, origin, \<lparr>lx = cos (155 * pi / 180), ly = sin (155 * pi / 180), lz = 0\<rparr>,
      origin, \<lparr>lx = 1, ly = 0, lz = 0\<rparr>,
      origin, origin, origin, origin, origin, origin, origin, origin, origin, origin, origin,
      origin, origin, origin, origin, origin]"

definition straightFrame :: "HandLandmark list" where
  "straightFrame =
     [origin, origin, \<lparr>lx = - 1, ly = 0, lz = 0\<rparr>, origin, \<lparr>lx = 1, ly = 0, lz = 0\<rparr>,
      origin, origin, origin, origin, origin, origin, origin, origin, origin, origin, origin,
      origin, origin, origin, origin, origin]"

definition frameAt :: "HandLandmark list \<Rightarrow> real \<Rightarrow> Frame" where
  "frameAt lms now = \<lparr>f_landmarks = Some lms, f_width = 800, f_height = 600, f_now = now\<rparr>"

text \<open>The constructor of \<open>ShootingSystem\<close>: aim at the origin, not locked, visuals hidden.\<close>

definition newShootingSystem :: ShootingSystem where
  "newShootingSystem =
     \<lparr>currentAim = \<lparr>px = 0, py = 0\<rparr>, isLocked = False, crosshairVisible = False,
      laserVisible = False\<rparr>"

text \<open>The scan variables of \<open>update\<close> before the loop, the values the taken branch of the
  loop body assigns for a target position, and the condition of that branch.\<close>

definition scan0 :: "ScreenPosition \<Rightarrow> AssistScan" where
  "scan0 raw = \<lparr>aimX = px raw, aimY = py raw, locked = False, closestDist = None\<rparr>"

definition pulled :: "ScreenPosition \<Rightarrow> ScreenPosition \<Rightarrow> AssistScan" where
  "pulled rawAim disc =
     (let dist = aimDist rawAim disc;
          pullStrength = AIM_ASSIST_STRENGTH * (1 - dist / AIM_ASSIST_RADIUS)
      in \<lparr>aimX = px rawAim + (px disc - px rawAim) * pullStrength,
          aimY = py rawAim + (py disc - py rawAim) * pullStrength,
          locked = (dist < AIM_ASSIST_RADIUS * (1 / 2)),
          closestDist = Some dist\<rparr>)"

definition below :: "AssistScan \<Rightarrow> real \<Rightarrow> bool" where
  "below a v = (case closestDist a of None \<Rightarrow> True | Some c \<Rightarrow> v < c)"

definition takes :: "ScreenPosition \<Rightarrow> AssistScan \<Rightarrow> ScreenPosition \<Rightarrow> bool" where
  "takes rawAim a disc =
     (aimDist rawAim disc < AIM_ASSIST_RADIUS \<and> below a (aimDist rawAim disc))"

text \<open>The distance \<open>checkHit\<close> computes between the query point and a trophy, the test
  that a live trophy is hit (strictly inside its own radius), and the condition under
  which the scan replaces the trophy it holds.\<close>

definition hitDist :: "real \<Rightarrow> real \<Rightarrow> Trophy \<Rightarrow> real" where
  "hitDist sx sy t =
     sqrt ((sx - screenX t) * (sx - screenX t) + (sy - screenY t) * (sy - screenY t))"

definition inReach :: "real \<Rightarrow> real \<Rightarrow> Trophy \<Rightarrow> bool" where
  "inReach sx sy t = (alive t \<and> hitDist sx sy t < radius t)"

definition closer :: "real \<Rightarrow> real \<Rightarrow> (nat \<times> real) option \<Rightarrow> Trophy \<Rightarrow> bool" where
  "closer sx sy closest t =
     (inReach sx sy t \<and>
      (case closest of None \<Rightarrow> True | Some (c, cd) \<Rightarrow> hitDist sx sy t < cd))"

text \<open>A field of three trophies: a bronze and a gold one whose hit circles overlap, and a
  dead silver one between them.\<close>

definition trophyA :: Trophy where
  "trophyA = \<lparr>trophy_id = 0, velocity = \<lparr>v2x = 10, v2y = 0\<rparr>, alive = True,
               screenX = 100, screenY = 100, radius = 90, tier = bronze\<rparr>"

definition trophyB :: Trophy where
  "trophyB = \<lparr>trophy_id = 1, velocity = \<lparr>v2x = 0, v2y = 10\<rparr>, alive = True,
               screenX = 150, screenY = 100, radius = 65, tier = gold\<rparr>"

definition trophyC :: Trophy where
  "trophyC = \<lparr>trophy_id = 2, velocity = \<lparr>v2x = 0, v2y = 0\<rparr>, alive = False,
               screenX = 140, screenY = 100, radius = 80, tier = silver\<rparr>"

definition field3 :: DiscManager where
  "field3 = field0\<lparr>trophies := [trophyA, trophyB, trophyC], nextId := 3\<rparr>"

text \<open>The calls the game loop and the window make on a started target field (an update
  tick, a hit test, a resize of the viewport), and the states after each call of a run.\<close>

datatype FieldCall = FUpdate real | FCheckHit real real | FResize real real

fun applyFieldCall :: "DiscManager \<Rightarrow> FieldCall \<Rightarrow> DiscManager" where
  "applyFieldCall st (FUpdate dt) = update dt st"
| "applyFieldCall st (FCheckHit sx sy) = snd (checkHit sx sy st)"
| "applyFieldCall st (FResize w h) = st\<lparr>scene := \<lparr>width = w, height = h\<rparr>\<rparr>"

fun fieldTrace :: "DiscManager \<Rightarrow> FieldCall list \<Rightarrow> DiscManager list" where
  "fieldTrace st [] = []"
| "fieldTrace st (c # cs) = applyFieldCall st c # fieldTrace (applyFieldCall st c) cs"


section \<open>Properties\<close>

subsection \<open>ScoreManager\<close>

lemma hit_combo_within:
  "now - lastHitTime s \<le> comboTimeout \<or> combo s = 0 \<Longrightarrow>
     combo (snd (hit m now s)) = combo s + 1"
  by (auto simp: hit_def Let_def)

lemma hit_lastHitTime: "lastHitTime (snd (hit m now s)) = now"
  by (simp add: hit_def Let_def)

lemma hit_result_combo: "hr_combo (fst (hit m now s)) = combo (snd (hit m now s))"
  by (simp add: hit_def Let_def)

lemma hit_result_multiplier:
  "hr_multiplier (fst (hit m now s)) = getMultiplier (snd (hit m now s))"
  by (simp add: hit_def Let_def getMultiplier_def)

text \<open>
  C6. Starting from a reset score engine, five hits, each at most 2000 ms after the one
  before, report the combos 1, 2, 3, 4, 5 and the multipliers 1, 1, 1.5, 1.5, 2; the
  multiplier a hit reports is the step function of the combo it reports (at least 20 gives
  5, at least 10 gives 3, at least 5 gives 2, at least 3 gives 1.5, otherwise 1); a miss
  sets the combo to 0; a hit more than 2000 ms after the previous one, with a combo above
  0, reports combo 1.
\<close>

theorem combo_sequence:
  "(tb - ta \<le> comboTimeout \<and> tc - tb \<le> comboTimeout \<and> td - tc \<le> comboTimeout \<and>
    te - td \<le> comboTimeout \<longrightarrow>
      map (\<lambda>r. (hr_combo r, hr_multiplier r))
          (hitResults (reset s) [(ma, ta), (mb, tb), (mc, tc), (md, td), (me, te)])
        = [(1, 1), (2, 1), (3, 3 / 2), (4, 3 / 2), (5, 2)])
   \<and> hr_multiplier (fst (hit m now s)) =
       (let c = hr_combo (fst (hit m now s))
        in if c \<ge> 20 then 5 else if c \<ge> 10 then 3 else if c \<ge> 5 then 2
           else if c \<ge> 3 then 3 / 2 else 1)
   \<and> getCombo (miss s) = 0
   \<and> (now - lastHitTime s > comboTimeout \<and> combo s > 0 \<longrightarrow>
        hr_combo (fst (hit m now s)) = 1 \<and> getCombo (snd (hit m now s)) = 1)"
proof (intro conjI impI)
  assume gaps: "tb - ta \<le> comboTimeout \<and> tc - tb \<le> comboTimeout \<and>
    td - tc \<le> comboTimeout \<and> te - td \<le> comboTimeout"
  define s1 where "s1 = snd (hit ma ta (reset s))"
  define s2 where "s2 = snd (hit mb tb s1)"
  define s3 where "s3 = snd (hit mc tc s2)"
  define s4 where "s4 = snd (hit md td s3)"
  define s5 where "s5 = snd (hit me te s4)"
  have c1: "combo s1 = 1"
    unfolding s1_def by (simp add: hit_combo_within reset_def)
  have c2: "combo s2 = 2"
    unfolding s2_def using gaps c1 by (simp add: hit_combo_within hit_lastHitTime s1_def)
  have c3: "combo s3 = 3"
    unfolding s3_def using gaps c2 by (simp add: hit_combo_within hit_lastHitTime s2_def)
  have c4: "combo s4 = 4"
    unfolding s4_def using gaps c3 by (simp add: hit_combo_within hit_lastHitTime s3_def)
  have c5: "combo s5 = 5"
    unfolding s5_def using gaps c4 by (simp add: hit_combo_within hit_lastHitTime s4_def)
  show "map (\<lambda>r. (hr_combo r, hr_multiplier r))
          (hitResults (reset s) [(ma, ta), (mb, tb), (mc, tc), (md, td), (me, te)])
        = [(1, 1), (2, 1), (3, 3 / 2), (4, 3 / 2), (5, 2)]"
    using c1 c2 c3 c4 c5
    by (simp add: hit_result_combo hit_result_multiplier getMultiplier_def
        s1_def s2_def s3_def s4_def s5_def)
next
  show "hr_multiplier (fst (hit m now s)) =
       (let c = hr_combo (fst (hit m now s))
        in if c \<ge> 20 then 5 else if c \<ge> 10 then 3 else if c \<ge> 5 then 2
           else if c \<ge> 3 then 3 / 2 else 1)"
    by (simp add: hit_result_combo hit_result_multiplier getMultiplier_def Let_def)
next
  show "getCombo (miss s) = 0"
    by (simp add: miss_def getCombo_def)
next
  assume "now - lastHitTime s > comboTimeout \<and> combo s > 0"
  then show "hr_combo (fst (hit m now s)) = 1"
    by (simp add: hit_def Let_def)
next
  assume "now - lastHitTime s > comboTimeout \<and> combo s > 0"
  then show "getCombo (snd (hit m now s)) = 1"
    by (simp add: hit_def Let_def getCombo_def)
qed

theorem combo_sequence_witness:
  "((500::real) - 0 \<le> comboTimeout \<and> (1000::real) - 500 \<le> comboTimeout \<and>
    (3000::real) - 1000 \<le> comboTimeout \<and> (3100::real) - 3000 \<le> comboTimeout)
   \<and> map (\<lambda>r. (hr_combo r, hr_multiplier r))
          (hitResults (reset scoreMid) [(1, 0), (2, 500), (5, 1000), (1, 3000), (1, 3100)])
        = [(1, 1), (2, 1), (3, 3 / 2), (4, 3 / 2), (5, 2)]
   \<and> (3001 - lastHitTime scoreMid > comboTimeout \<and> combo scoreMid > 0)
   \<and> hr_combo (fst (hit 1 3001 scoreMid)) = 1
   \<and> getCombo (snd (hit 1 3001 scoreMid)) = 1"
  using combo_sequence [of 500 0 1000 3000 3100 scoreMid 1 2 5 1 1 1 3001]
  by (simp add: comboTimeout_def scoreMid_def)

lemma getMultiplier_pos: "0 < getMultiplier s"
  by (simp add: getMultiplier_def)

lemma hit_score_mono:
  assumes "0 \<le> m"
  shows "score s \<le> score (snd (hit m now s))"
proof -
  have "0 \<le> basePoints * getMultiplier s' * m" for s'
    using assms getMultiplier_pos [of s'] by (simp add: basePoints_def)
  then have "0 \<le> basePoints * getMultiplier s' * m + 1 / 2" for s'
    by (simp add: add_nonneg_nonneg)
  then have "0 \<le> Math_round (basePoints * getMultiplier s' * m)" for s'
    by (simp add: Math_round_def)
  then show ?thesis
    by (simp add: hit_def Let_def)
qed

lemma event_score_mono:
  "nonNegativeTier e \<Longrightarrow> score s \<le> score (applyScoreEvent s e)"
  by (cases e) (simp_all add: hit_score_mono miss_def)

lemma trace_score_lower:
  "\<forall>e \<in> set es. nonNegativeTier e \<Longrightarrow> \<forall>x \<in> set (scoreTrace s es). score s \<le> score x"
proof (induction es arbitrary: s)
  case Nil
  then show ?case by simp
next
  case (Cons e es)
  have step: "score s \<le> score (applyScoreEvent s e)"
    using Cons.prems by (simp add: event_score_mono)
  have "\<forall>x \<in> set (scoreTrace (applyScoreEvent s e) es). score (applyScoreEvent s e) \<le> score x"
    using Cons.IH Cons.prems by simp
  with step show ?case by auto
qed

lemma trace_score_sorted:
  "\<forall>e \<in> set es. nonNegativeTier e \<Longrightarrow> sorted (map score (scoreTrace s es))"
proof (induction es arbitrary: s)
  case Nil
  then show ?case by simp
next
  case (Cons e es)
  then show ?case
    using trace_score_lower [of es "applyScoreEvent s e"] by simp
qed

text \<open>
  C7, as stated, at a concrete input: one hit with tier multiplier \<open>-1\<close> on a new score
  engine awards \<open>Math.round(100 * 1 * -1) = -100\<close> points, so the score falls from 0 to
  \<open>-100\<close>.
\<close>

theorem score_negative_tier_counterexample:
  "\<not> sorted (map getScore (newScoreManager # scoreTrace newScoreManager [Hit (- 1) 0]))"
  by (simp add: getScore_def hit_def Let_def newScoreManager_def getMultiplier_def
      Math_round_def basePoints_def comboTimeout_def)

text \<open>
  C7, amended. For every sequence of \<open>hit(tierMultiplier)\<close> and \<open>miss()\<close> calls in which no
  tier multiplier is negative, the scores read before the first call and after each call
  are non-decreasing; \<open>reset()\<close> returns the score to 0; a hit never raises the combo by
  more than 1.
\<close>

theorem score_monotone:
  "((\<forall>e \<in> set es. nonNegativeTier e) \<longrightarrow> sorted (map getScore (s # scoreTrace s es)))
   \<and> getScore (reset s) = 0
   \<and> getCombo (snd (hit m now s)) \<le> getCombo s + 1
   \<and> hr_combo (fst (hit m now s)) \<le> getCombo s + 1"
proof (intro conjI impI)
  assume nn: "\<forall>e \<in> set es. nonNegativeTier e"
  have "getScore = score"
    by (rule ext) (simp add: getScore_def)
  then show "sorted (map getScore (s # scoreTrace s es))"
    using trace_score_sorted [OF nn, of s] trace_score_lower [OF nn, of s] by simp
next
  show "getScore (reset s) = 0"
    by (simp add: getScore_def reset_def)
next
  show "getCombo (snd (hit m now s)) \<le> getCombo s + 1"
    by (simp add: hit_def Let_def getCombo_def)
next
  show "hr_combo (fst (hit m now s)) \<le> getCombo s + 1"
    by (simp add: hit_def Let_def getCombo_def)
qed

theorem score_monotone_witness:
  "nonNegativeTier (Hit 5 0) \<and> nonNegativeTier Miss \<and> nonNegativeTier (Hit 1 100)
   \<and> sorted (map getScore
        (newScoreManager # scoreTrace newScoreManager [Hit 5 0, Miss, Hit 1 100]))"
  using score_monotone [of "[Hit 5 0, Miss, Hit 1 100]" newScoreManager] by simp

subsection \<open>GameManager\<close>

lemma call_time_nonneg:
  "0 \<le> timeRemaining g \<Longrightarrow> 0 \<le> timeRemaining (applyGameCall g c)"
  by (cases c) (auto simp: gm_update_def endGame_def startGame_def restart_def
      ROUND_DURATION_def Let_def)

lemma run_time_nonneg:
  "0 \<le> timeRemaining g \<Longrightarrow> 0 \<le> timeRemaining (foldl applyGameCall g cs)"
  by (induction cs arbitrary: g) (simp_all add: call_time_nonneg)

text \<open>
  C8. In the PLAYING state with 60 seconds remaining, one \<open>update(70)\<close> yields GAME_OVER
  with exactly 0 seconds remaining; after any update in the PLAYING state, and after any
  run of calls on a new controller, the time remaining is not negative; \<open>update(dt)\<close>
  changes nothing in the IDLE and GAME_OVER states; no single call of the controller takes
  IDLE to GAME_OVER.
\<close>

theorem round_timer:
  "(state g = PLAYING \<and> timeRemaining g = 60 \<longrightarrow>
      getState (gm_update 70 g) = GAME_OVER \<and> getTimeRemaining (gm_update 70 g) = 0)
   \<and> (state g = PLAYING \<longrightarrow> 0 \<le> getTimeRemaining (gm_update dt g))
   \<and> 0 \<le> getTimeRemaining (foldl applyGameCall (newGameManager sm dm) cs)
   \<and> (state g = IDLE \<or> state g = GAME_OVER \<longrightarrow> gm_update dt g = g)
   \<and> (state g = IDLE \<longrightarrow> getState (applyGameCall g c) \<noteq> GAME_OVER)"
proof -
  have "0 \<le> timeRemaining (newGameManager sm dm)"
    by (simp add: newGameManager_def ROUND_DURATION_def)
  then have "0 \<le> getTimeRemaining (foldl applyGameCall (newGameManager sm dm) cs)"
    unfolding getTimeRemaining_def by (rule run_time_nonneg)
  then show ?thesis
    by (cases c) (auto simp: gm_update_def endGame_def getState_def getTimeRemaining_def
        startGame_def restart_def Let_def)
qed

theorem round_timer_witness:
  "(state ((newGameManager newScoreManager field0)\<lparr>state := PLAYING\<rparr>) = PLAYING
     \<and> timeRemaining ((newGameManager newScoreManager field0)\<lparr>state := PLAYING\<rparr>) = 60)
   \<and> getState (gm_update 70 ((newGameManager newScoreManager field0)\<lparr>state := PLAYING\<rparr>))
       = GAME_OVER
   \<and> getTimeRemaining
        (gm_update 70 ((newGameManager newScoreManager field0)\<lparr>state := PLAYING\<rparr>)) = 0
   \<and> state (newGameManager newScoreManager field0) = IDLE
   \<and> gm_update 70 (newGameManager newScoreManager field0)
       = newGameManager newScoreManager field0
   \<and> getState (applyGameCall (newGameManager newScoreManager field0) EndGame) \<noteq> GAME_OVER"
  using round_timer [of "(newGameManager newScoreManager field0)\<lparr>state := PLAYING\<rparr>" 70
      newScoreManager field0 "[]" EndGame]
    round_timer [of "newGameManager newScoreManager field0" 70 newScoreManager field0 "[]" EndGame]
  by (simp add: newGameManager_def ROUND_DURATION_def)


subsection \<open>GestureDetector\<close>

lemma bent_angle: "thumbAngleOf bentFrame = 90"
  by (simp add: thumbAngleOf_def bentFrame_def angleAtJoint_def origin_def Let_def)

lemma straight_angle: "thumbAngleOf straightFrame = 180"
  by (simp add: thumbAngleOf_def straightFrame_def angleAtJoint_def origin_def Let_def)

lemma boundary_angle: "thumbAngleOf boundaryFrame = 155"
proof -
  have a: "arccos (cos (31 * pi / 36)) = 31 * pi / 36"
    by (rule arccos_cos) simp_all
  show ?thesis
    by (simp add: thumbAngleOf_def boundaryFrame_def angleAtJoint_def origin_def Let_def a)
qed

lemma detect_short:
  "(case landmarks of None \<Rightarrow> True | Some lms \<Rightarrow> length lms < 21) \<Longrightarrow>
   detect landmarks w h now d = Some (noGesture, d\<lparr>debugInfo := (debugInfo d)\<lparr>hasHand := False\<rparr>\<rparr>)"
  by (simp add: detect_def split: option.splits)

lemma detect_full:
  assumes "21 \<le> length lms"
  shows "\<exists>r d'. detect (Some lms) w h now d = Some (r, d') \<and>
     (triggered r = (thumbAngleOf lms < 155 \<and> 500 < now - lastShotTime d)) \<and>
     lastShotTime d' = (if triggered r then now else lastShotTime d) \<and>
     aimPosition r \<noteq> None"
  using assms
  by (auto simp: detect_def landmarkAt_def Let_def thumbAngleOf_def THUMB_BENT_ANGLE_def SHOOT_COOLDOWN_def)


text \<open>\<open>detect\<close> yields an aim point and a hand base together, or neither.\<close>

lemma detect_aim_base:
  "detect landmarks w h now d = Some (r, d') \<Longrightarrow> (aimPosition r = None) = (handBase r = None)"
  by (auto simp: detect_def landmarkAt_def Let_def noGesture_def
      split: option.splits if_splits)

lemma detect_total: "\<exists>r d'. detect landmarks w h now d = Some (r, d')"
proof (cases "case landmarks of None \<Rightarrow> True | Some lms \<Rightarrow> length lms < 21")
  case True
  then show ?thesis by (simp add: detect_short)
next
  case False
  then obtain lms where "landmarks = Some lms" "21 \<le> length lms"
    by (auto split: option.splits)
  then show ?thesis using detect_full [of lms w h now d] by blast
qed

lemma detect_lastShot:
  assumes "detect landmarks w h now d = Some (r, d')"
  shows "lastShotTime d \<le> lastShotTime d' \<and>
         (triggered r \<longrightarrow> lastShotTime d' = now \<and> 500 < now - lastShotTime d)"
proof (cases "case landmarks of None \<Rightarrow> True | Some lms \<Rightarrow> length lms < 21")
  case True
  then show ?thesis using assms by (auto simp: detect_short noGesture_def)
next
  case False
  then obtain lms where "landmarks = Some lms" "21 \<le> length lms"
    by (auto split: option.splits)
  then show ?thesis using detect_full [of lms w h now d] assms by (auto split: if_splits)
qed

lemma detectRun_total: "\<exists>rs. detectRun d fs = Some rs \<and> length rs = length fs"
proof (induction fs arbitrary: d)
  case Nil
  then show ?case by simp
next
  case (Cons f fs)
  obtain r d' where step: "detect (f_landmarks f) (f_width f) (f_height f) (f_now f) d = Some (r, d')"
    using detect_total by blast
  obtain rs where "detectRun d' fs = Some rs" "length rs = length fs"
    using Cons.IH by blast
  with step show ?case by simp
qed

lemma detectRun_fire_after:
  "detectRun d fs = Some rs \<Longrightarrow> j < length fs \<Longrightarrow> triggered (rs ! j) \<Longrightarrow>
     500 < f_now (fs ! j) - lastShotTime d"
proof (induction fs arbitrary: d rs j)
  case Nil
  then show ?case by simp
next
  case (Cons f fs)
  obtain r d' where step: "detect (f_landmarks f) (f_width f) (f_height f) (f_now f) d = Some (r, d')"
    using detect_total by blast
  obtain rs' where rest: "detectRun d' fs = Some rs'" and rs: "rs = r # rs'"
    using Cons.prems(1) step by auto
  show ?case
  proof (cases j)
    case 0
    then show ?thesis using Cons.prems(3) rs detect_lastShot [OF step] by simp
  next
    case (Suc k)
    then have "500 < f_now (fs ! k) - lastShotTime d'"
      using Cons.IH [OF rest, of k] Cons.prems(2,3) rs by simp
    then show ?thesis using Suc detect_lastShot [OF step] by simp
  qed
qed

lemma detectRun_cooldown:
  "detectRun d fs = Some rs \<Longrightarrow> i < j \<Longrightarrow> j < length fs \<Longrightarrow>
     triggered (rs ! i) \<Longrightarrow> triggered (rs ! j) \<Longrightarrow>
     500 < f_now (fs ! j) - f_now (fs ! i)"
proof (induction fs arbitrary: d rs i j)
  case Nil
  then show ?case by simp
next
  case (Cons f fs)
  obtain r d' where step: "detect (f_landmarks f) (f_width f) (f_height f) (f_now f) d = Some (r, d')"
    using detect_total by blast
  obtain rs' where rest: "detectRun d' fs = Some rs'" and rs: "rs = r # rs'"
    using Cons.prems(1) step by auto
  obtain k where j: "j = Suc k"
    using Cons.prems(2) by (cases j) auto
  show ?case
  proof (cases i)
    case 0
    then have "lastShotTime d' = f_now f"
      using Cons.prems(4) rs detect_lastShot [OF step] by simp
    moreover have "500 < f_now (fs ! k) - lastShotTime d'"
      using detectRun_fire_after [OF rest, of k] Cons.prems(3,5) rs j by simp
    ultimately show ?thesis using 0 j by simp
  next
    case (Suc i')
    then show ?thesis
      using Cons.IH [OF rest, of i' k] Cons.prems(2-5) rs j by simp
  qed
qed

text \<open>
  C2. When the landmark list is null, or has fewer than 21 entries, \<open>detect\<close> returns (it
  does not raise) the result with \<open>isPistol = false\<close>, \<open>triggered = false\<close>,
  \<open>aimPosition = null\<close> and \<open>handBase = null\<close>; the detector only records that no hand was
  seen.
\<close>

theorem detect_fails_soft:
  "detect None w h now d =
     Some (\<lparr>isPistol = False, aimPosition = None, handBase = None, triggered = False\<rparr>,
           d\<lparr>debugInfo := (debugInfo d)\<lparr>hasHand := False\<rparr>\<rparr>)
   \<and> (length lms < 21 \<longrightarrow>
        detect (Some lms) w h now d =
          Some (\<lparr>isPistol = False, aimPosition = None, handBase = None, triggered = False\<rparr>,
                d\<lparr>debugInfo := (debugInfo d)\<lparr>hasHand := False\<rparr>\<rparr>))"
  using detect_short [of None w h now d] detect_short [of "Some lms" w h now d]
  by (simp add: noGesture_def)

theorem detect_fails_soft_witness:
  "length [origin, origin, origin] < 21
   \<and> detect (Some [origin, origin, origin]) 800 600 1000 newGestureDetector =
       Some (\<lparr>isPistol = False, aimPosition = None, handBase = None, triggered = False\<rparr>,
             newGestureDetector\<lparr>debugInfo :=
               (debugInfo newGestureDetector)\<lparr>hasHand := False\<rparr>\<rparr>)"
  using detect_fails_soft [of 800 600 1000 newGestureDetector "[origin, origin, origin]"]
  by simp

text \<open>
  C1, as stated, at a concrete input: a frame whose thumb angle is 90 degrees, read at
  clock time 500 by a detector whose last-fire timestamp is 0. Exactly 500 ms have
  elapsed, which is at least 500 ms, and the frame does not fire.
\<close>

theorem trigger_at_500_counterexample:
  "thumbAngleOf bentFrame < 155 \<and> 500 - lastShotTime newGestureDetector \<ge> 500 \<and>
   map_option (triggered \<circ> fst) (detect (Some bentFrame) 800 600 500 newGestureDetector) = Some False"
proof -
  have len: "21 \<le> length bentFrame"
    by (simp add: bentFrame_def)
  show ?thesis
    using detect_full [OF len, of 800 600 500 newGestureDetector]
    by (auto simp: bent_angle newGestureDetector_def)
qed

text \<open>
  C1, amended. For a frame of at least 21 landmarks, \<open>detect\<close> reports
  \<open>triggered = true\<close> if and only if the thumb angle is below 155 degrees and more than
  500 ms (strictly) lie between the last-fire timestamp and the clock reading; the
  last-fire timestamp becomes the clock reading on a fire and is unchanged otherwise; an
  angle of exactly 155 or exactly 180 degrees does not fire. Consequently, in any run of
  frames through one detector, two frames whose clock readings are at most 500 ms apart
  do not both fire.
\<close>

theorem trigger_cooldown:
  "(21 \<le> length lms \<longrightarrow>
      (\<exists>r d'. detect (Some lms) w h now d = Some (r, d') \<and>
         (triggered r = (thumbAngleOf lms < 155 \<and> 500 < now - lastShotTime d)) \<and>
         lastShotTime d' = (if triggered r then now else lastShotTime d) \<and>
         (thumbAngleOf lms = 155 \<longrightarrow> \<not> triggered r) \<and>
         (thumbAngleOf lms = 180 \<longrightarrow> \<not> triggered r)))
   \<and> (\<exists>rs. detectRun d fs = Some rs \<and> length rs = length fs \<and>
         (\<forall>i j. i < j \<and> j < length fs \<and> f_now (fs ! j) - f_now (fs ! i) \<le> 500 \<longrightarrow>
                \<not> (triggered (rs ! i) \<and> triggered (rs ! j))))"
proof (intro conjI impI)
  assume "21 \<le> length lms"
  then obtain r d' where *: "detect (Some lms) w h now d = Some (r, d')"
     "triggered r = (thumbAngleOf lms < 155 \<and> 500 < now - lastShotTime d)"
     "lastShotTime d' = (if triggered r then now else lastShotTime d)"
    using detect_full [of lms w h now d] by blast
  then show "\<exists>r d'. detect (Some lms) w h now d = Some (r, d') \<and>
         (triggered r = (thumbAngleOf lms < 155 \<and> 500 < now - lastShotTime d)) \<and>
         lastShotTime d' = (if triggered r then now else lastShotTime d) \<and>
         (thumbAngleOf lms = 155 \<longrightarrow> \<not> triggered r) \<and>
         (thumbAngleOf lms = 180 \<longrightarrow> \<not> triggered r)"
    by (intro exI [of _ r] exI [of _ d']) simp
next
  obtain rs where rs: "detectRun d fs = Some rs" "length rs = length fs"
    using detectRun_total by blast
  have "\<not> (triggered (rs ! i) \<and> triggered (rs ! j))"
    if "i < j \<and> j < length fs \<and> f_now (fs ! j) - f_now (fs ! i) \<le> 500" for i j
    using detectRun_cooldown [OF rs(1), of i j] that by fastforce
  with rs show "\<exists>rs. detectRun d fs = Some rs \<and> length rs = length fs \<and>
         (\<forall>i j. i < j \<and> j < length fs \<and> f_now (fs ! j) - f_now (fs ! i) \<le> 500 \<longrightarrow>
                \<not> (triggered (rs ! i) \<and> triggered (rs ! j)))"
    by blast
qed


theorem trigger_cooldown_witness:
  "21 \<le> length bentFrame \<and> thumbAngleOf bentFrame = 90
   \<and> (\<exists>r d'. detect (Some bentFrame) 800 600 501 newGestureDetector = Some (r, d') \<and>
         triggered r \<and> lastShotTime d' = 501)
   \<and> 21 \<le> length boundaryFrame \<and> thumbAngleOf boundaryFrame = 155
   \<and> (\<exists>r d'. detect (Some boundaryFrame) 800 600 501 newGestureDetector = Some (r, d') \<and>
         \<not> triggered r \<and> lastShotTime d' = 0)
   \<and> 21 \<le> length straightFrame \<and> thumbAngleOf straightFrame = 180
   \<and> (\<exists>r d'. detect (Some straightFrame) 800 600 501 newGestureDetector = Some (r, d') \<and>
         \<not> triggered r \<and> lastShotTime d' = 0)
   \<and> (\<exists>rs. detectRun newGestureDetector [frameAt bentFrame 600, frameAt bentFrame 900] = Some rs \<and>
         length rs = 2 \<and> \<not> (triggered (rs ! 0) \<and> triggered (rs ! 1)))"
proof -
  have l1: "21 \<le> length bentFrame" by (simp add: bentFrame_def)
  have l2: "21 \<le> length boundaryFrame" by (simp add: boundaryFrame_def)
  have l3: "21 \<le> length straightFrame" by (simp add: straightFrame_def)
  have t0: "lastShotTime newGestureDetector = 0" by (simp add: newGestureDetector_def)
  note a = trigger_cooldown [of bentFrame 800 600 501 newGestureDetector "[]"]
  note b = trigger_cooldown [of boundaryFrame 800 600 501 newGestureDetector "[]"]
  note c = trigger_cooldown [of straightFrame 800 600 501 newGestureDetector "[]"]
  note r = trigger_cooldown [of "[]" 0 0 0 newGestureDetector
              "[frameAt bentFrame 600, frameAt bentFrame 900]"]
  have A: "\<exists>r d'. detect (Some bentFrame) 800 600 501 newGestureDetector = Some (r, d') \<and>
         triggered r \<and> lastShotTime d' = 501"
    using a l1 by (auto simp: bent_angle t0)
  have B: "\<exists>r d'. detect (Some boundaryFrame) 800 600 501 newGestureDetector = Some (r, d') \<and>
         \<not> triggered r \<and> lastShotTime d' = 0"
    using b l2 by (auto simp: boundary_angle t0)
  have C: "\<exists>r d'. detect (Some straightFrame) 800 600 501 newGestureDetector = Some (r, d') \<and>
         \<not> triggered r \<and> lastShotTime d' = 0"
    using c l3 by (auto simp: straight_angle t0)
  have R: "\<exists>rs. detectRun newGestureDetector [frameAt bentFrame 600, frameAt bentFrame 900] = Some rs \<and>
         length rs = 2 \<and> \<not> (triggered (rs ! 0) \<and> triggered (rs ! 1))"
  proof -
    let ?fs = "[frameAt bentFrame 600, frameAt bentFrame 900]"
    obtain rs where rs: "detectRun newGestureDetector ?fs = Some rs"
      "length rs = length ?fs"
      "\<forall>i j. i < j \<and> j < length ?fs \<and> f_now (?fs ! j) - f_now (?fs ! i) \<le> 500 \<longrightarrow>
                \<not> (triggered (rs ! i) \<and> triggered (rs ! j))"
      using r by blast
    have "\<not> (triggered (rs ! 0) \<and> triggered (rs ! 1))"
      using rs(3) [rule_format, of 0 1] by (simp add: frameAt_def)
    with rs(1,2) show ?thesis by simp
  qed
  show ?thesis
    using l1 l2 l3 A B C R by (simp add: bent_angle boundary_angle straight_angle)
qed




subsection \<open>ShootingSystem: the aim assist\<close>

lemma assist_loop_Cons:
  "assist_loop raw (disc # rest) a =
     (if takes raw a disc then assist_loop raw rest (pulled raw disc)
      else assist_loop raw rest a)"
  by (simp add: takes_def below_def pulled_def aimDist_def Let_def)

lemma below_pulled [simp]: "below (pulled raw d) v = (v < aimDist raw d)"
  by (simp add: below_def pulled_def Let_def)

lemma takes_pulled: "takes raw (pulled raw d) e = (aimDist raw e < AIM_ASSIST_RADIUS \<and> aimDist raw e < aimDist raw d)"
  by (simp add: takes_def)

lemma below_trans: "below a v \<Longrightarrow> u \<le> v \<Longrightarrow> below a u"
  by (auto simp: below_def split: option.splits)

lemma assist_loop_none:
  "\<forall>d \<in> set discs. \<not> takes raw a d \<Longrightarrow> assist_loop raw discs a = a"
  by (induction discs) (simp_all add: assist_loop_Cons del: assist_loop.simps(2))

lemma assist_loop_some:
  "\<exists>d \<in> set discs. takes raw a d \<Longrightarrow>
   \<exists>d \<in> set discs. takes raw a d \<and> (\<forall>e \<in> set discs. takes raw a e \<longrightarrow> aimDist raw d \<le> aimDist raw e) \<and>
      assist_loop raw discs a = pulled raw d"
proof (induction discs arbitrary: a)
  case Nil
  then show ?case by simp
next
  case (Cons disc rest)
  show ?case
  proof (cases "takes raw a disc")
    case True
    note t = True
    show ?thesis
    proof (cases "\<exists>d \<in> set rest. takes raw (pulled raw disc) d")
      case True
      then obtain d where d: "d \<in> set rest" "takes raw (pulled raw disc) d"
        "\<forall>e \<in> set rest. takes raw (pulled raw disc) e \<longrightarrow> aimDist raw d \<le> aimDist raw e"
        "assist_loop raw rest (pulled raw disc) = pulled raw d"
        using Cons.IH [of "pulled raw disc"] by blast
      have lt: "aimDist raw d < aimDist raw disc" "aimDist raw d < AIM_ASSIST_RADIUS"
        using d(2) by (simp_all add: takes_pulled)
      have "takes raw a d"
        using t lt below_trans [of a "aimDist raw disc" "aimDist raw d"]
        by (simp add: takes_def)
      moreover have "\<forall>e \<in> set (disc # rest). takes raw a e \<longrightarrow> aimDist raw d \<le> aimDist raw e"
        using d(3) lt by (auto simp: takes_pulled takes_def)
      ultimately show ?thesis
        using d(1,4) t by (auto simp: assist_loop_Cons simp del: assist_loop.simps(2))
    next
      case False
      then have "assist_loop raw rest (pulled raw disc) = pulled raw disc"
        by (simp add: assist_loop_none)
      moreover have "\<forall>e \<in> set (disc # rest). takes raw a e \<longrightarrow> aimDist raw disc \<le> aimDist raw e"
        using False by (auto simp: takes_pulled takes_def)
      ultimately show ?thesis
        using t by (auto simp: assist_loop_Cons simp del: assist_loop.simps(2))
    qed
  next
    case False
    then have ex: "\<exists>d \<in> set rest. takes raw a d"
      using Cons.prems by auto
    then obtain d where d: "d \<in> set rest" "takes raw a d"
        "\<forall>e \<in> set rest. takes raw a e \<longrightarrow> aimDist raw d \<le> aimDist raw e"
        "assist_loop raw rest a = pulled raw d"
      using Cons.IH [of a] by blast
    then show ?thesis
      using False by (auto simp: assist_loop_Cons simp del: assist_loop.simps(2))
  qed
qed

lemma takes_scan0: "takes raw (scan0 raw) d = (aimDist raw d < 150)"
  by (simp add: takes_def below_def scan0_def AIM_ASSIST_RADIUS_def)

lemma ss_update_scan:
  "ss_update (Some raw) (Some hb) discs s =
     (let a = assist_loop raw discs (scan0 raw)
      in (Some \<lparr>px = aimX a, py = aimY a\<rparr>,
          s\<lparr>isLocked := locked a, currentAim := \<lparr>px = aimX a, py = aimY a\<rparr>,
            crosshairVisible := True, laserVisible := True\<rparr>))"
  by (simp add: ss_update_def scan0_def Let_def)

lemma aimDist_self: "aimDist raw raw = 0"
  by (simp add: aimDist_def)

lemma aimDist_zero: "aimDist raw d = 0 \<Longrightarrow> d = raw"
proof -
  assume "aimDist raw d = 0"
  then have "(px raw - px d) * (px raw - px d) + (py raw - py d) * (py raw - py d) = 0"
    by (simp add: aimDist_def)
  then have "px raw - px d = 0 \<and> py raw - py d = 0"
    by (simp add: sum_squares_eq_zero_iff)
  then show "d = raw" by simp
qed

lemma aimDist_nonneg: "0 \<le> aimDist raw d"
  by (simp add: aimDist_def)

text \<open>
  C9. With a raw aim point and a hand base given: a raw aim point exactly on a target
  position comes back unchanged, which is that target position, and the system reports
  locked; a raw aim point at distance 150 or more from every target position comes back
  unchanged and the system reports not locked; and whenever some target position is
  closer than 150, the returned point is the raw aim point moved towards a closest target
  position by the factor \<open>0.45 * (1 - distance / 150)\<close>, locked exactly when that distance
  is below 75.
\<close>

theorem aim_assist:
  "(raw \<in> set discs \<longrightarrow>
      fst (ss_update (Some raw) (Some hb) discs s) = Some raw \<and>
      isTargetLocked (snd (ss_update (Some raw) (Some hb) discs s)))
   \<and> ((\<forall>d \<in> set discs. 150 \<le> aimDist raw d) \<longrightarrow>
      fst (ss_update (Some raw) (Some hb) discs s) = Some raw \<and>
      \<not> isTargetLocked (snd (ss_update (Some raw) (Some hb) discs s)))
   \<and> ((\<exists>d \<in> set discs. aimDist raw d < 150) \<longrightarrow>
      (\<exists>d \<in> set discs. aimDist raw d < 150 \<and> (\<forall>e \<in> set discs. aimDist raw d \<le> aimDist raw e) \<and>
         fst (ss_update (Some raw) (Some hb) discs s) =
           Some \<lparr>px = px raw + (px d - px raw) * (45 / 100 * (1 - aimDist raw d / 150)),
                 py = py raw + (py d - py raw) * (45 / 100 * (1 - aimDist raw d / 150))\<rparr> \<and>
         isTargetLocked (snd (ss_update (Some raw) (Some hb) discs s)) = (aimDist raw d < 75)))"
proof -
  have far: "fst (ss_update (Some raw) (Some hb) discs s) = Some raw \<and>
      \<not> isTargetLocked (snd (ss_update (Some raw) (Some hb) discs s))"
    if "\<forall>d \<in> set discs. 150 \<le> aimDist raw d"
  proof -
    have "\<forall>d \<in> set discs. \<not> takes raw (scan0 raw) d"
      using that by (auto simp: takes_scan0)
    then have "assist_loop raw discs (scan0 raw) = scan0 raw"
      by (rule assist_loop_none)
    then show ?thesis
      by (simp add: ss_update_scan isTargetLocked_def scan0_def)
  qed
  have near: "\<exists>d \<in> set discs. aimDist raw d < 150 \<and> (\<forall>e \<in> set discs. aimDist raw d \<le> aimDist raw e) \<and>
         fst (ss_update (Some raw) (Some hb) discs s) =
           Some \<lparr>px = px raw + (px d - px raw) * (45 / 100 * (1 - aimDist raw d / 150)),
                 py = py raw + (py d - py raw) * (45 / 100 * (1 - aimDist raw d / 150))\<rparr> \<and>
         isTargetLocked (snd (ss_update (Some raw) (Some hb) discs s)) = (aimDist raw d < 75)"
    if "\<exists>d \<in> set discs. aimDist raw d < 150"
  proof -
    have "\<exists>d \<in> set discs. takes raw (scan0 raw) d"
      using that by (simp add: takes_scan0)
    then obtain d where d: "d \<in> set discs" "takes raw (scan0 raw) d"
      "\<forall>e \<in> set discs. takes raw (scan0 raw) e \<longrightarrow> aimDist raw d \<le> aimDist raw e"
      "assist_loop raw discs (scan0 raw) = pulled raw d"
      using assist_loop_some [of discs raw "scan0 raw"] by blast
    have lt: "aimDist raw d < 150"
      using d(2) by (simp add: takes_scan0)
    have "\<forall>e \<in> set discs. aimDist raw d \<le> aimDist raw e"
    proof
      fix e assume "e \<in> set discs"
      then show "aimDist raw d \<le> aimDist raw e"
        using d(3) lt by (cases "aimDist raw e < 150") (auto simp: takes_scan0)
    qed
    then show ?thesis
      using d(1,4) lt
      by (intro bexI [of _ d])
         (simp_all add: ss_update_scan isTargetLocked_def pulled_def Let_def
            AIM_ASSIST_STRENGTH_def AIM_ASSIST_RADIUS_def)
  qed
  have on: "fst (ss_update (Some raw) (Some hb) discs s) = Some raw \<and>
      isTargetLocked (snd (ss_update (Some raw) (Some hb) discs s))"
    if "raw \<in> set discs"
  proof -
    have "\<exists>d \<in> set discs. aimDist raw d < 150"
      using that aimDist_self [of raw] by force
    then obtain d where d: "d \<in> set discs" "\<forall>e \<in> set discs. aimDist raw d \<le> aimDist raw e"
      "fst (ss_update (Some raw) (Some hb) discs s) =
           Some \<lparr>px = px raw + (px d - px raw) * (45 / 100 * (1 - aimDist raw d / 150)),
                 py = py raw + (py d - py raw) * (45 / 100 * (1 - aimDist raw d / 150))\<rparr>"
      "isTargetLocked (snd (ss_update (Some raw) (Some hb) discs s)) = (aimDist raw d < 75)"
      using near by blast
    have "aimDist raw d \<le> 0"
      using d(2) that aimDist_self [of raw] by force
    then have z: "aimDist raw d = 0"
      using aimDist_nonneg [of raw d] by simp
    then have "d = raw" by (rule aimDist_zero)
    then show ?thesis using d(3,4) z by simp
  qed
  show ?thesis using far near on by blast
qed


lemma far_dist: "aimDist \<lparr>px = 100, py = 100\<rparr> \<lparr>px = 400, py = 100\<rparr> = 300"
proof -
  have "sqrt 90000 = 300"
    by (rule real_sqrt_unique) simp_all
  then show ?thesis
    by (simp add: aimDist_def)
qed

lemma near_dist: "aimDist \<lparr>px = 0, py = 0\<rparr> \<lparr>px = 60, py = 0\<rparr> = 60"
  by (simp add: aimDist_def)

theorem aim_assist_witness:
  "\<lparr>px = 100, py = 100\<rparr> \<in> set [\<lparr>px = 130, py = 100\<rparr>, \<lparr>px = 100, py = 100\<rparr>]
   \<and> fst (ss_update (Some \<lparr>px = 100, py = 100\<rparr>) (Some \<lparr>px = 0, py = 0\<rparr>)
        [\<lparr>px = 130, py = 100\<rparr>, \<lparr>px = 100, py = 100\<rparr>] newShootingSystem) = Some \<lparr>px = 100, py = 100\<rparr>
   \<and> 150 \<le> aimDist \<lparr>px = 100, py = 100\<rparr> \<lparr>px = 400, py = 100\<rparr>
   \<and> fst (ss_update (Some \<lparr>px = 100, py = 100\<rparr>) (Some \<lparr>px = 0, py = 0\<rparr>)
        [\<lparr>px = 400, py = 100\<rparr>] newShootingSystem) = Some \<lparr>px = 100, py = 100\<rparr>
   \<and> \<not> isTargetLocked (snd (ss_update (Some \<lparr>px = 100, py = 100\<rparr>) (Some \<lparr>px = 0, py = 0\<rparr>)
        [\<lparr>px = 400, py = 100\<rparr>] newShootingSystem))
   \<and> aimDist \<lparr>px = 0, py = 0\<rparr> \<lparr>px = 60, py = 0\<rparr> < 150
   \<and> fst (ss_update (Some \<lparr>px = 0, py = 0\<rparr>) (Some \<lparr>px = 0, py = 0\<rparr>)
        [\<lparr>px = 60, py = 0\<rparr>] newShootingSystem) = Some \<lparr>px = 81 / 5, py = 0\<rparr>
   \<and> isTargetLocked (snd (ss_update (Some \<lparr>px = 0, py = 0\<rparr>) (Some \<lparr>px = 0, py = 0\<rparr>)
        [\<lparr>px = 60, py = 0\<rparr>] newShootingSystem))"
  using aim_assist [of "\<lparr>px = 100, py = 100\<rparr>" "[\<lparr>px = 130, py = 100\<rparr>, \<lparr>px = 100, py = 100\<rparr>]"
      "\<lparr>px = 0, py = 0\<rparr>" newShootingSystem]
    aim_assist [of "\<lparr>px = 100, py = 100\<rparr>" "[\<lparr>px = 400, py = 100\<rparr>]" "\<lparr>px = 0, py = 0\<rparr>" newShootingSystem]
    aim_assist [of "\<lparr>px = 0, py = 0\<rparr>" "[\<lparr>px = 60, py = 0\<rparr>]" "\<lparr>px = 0, py = 0\<rparr>" newShootingSystem]
  by (simp add: far_dist near_dist)



subsection \<open>DiscManager: hit testing\<close>

lemma checkHit_loop_Cons:
  "checkHit_loop sx sy (t # ts) k c =
     (if closer sx sy c t then checkHit_loop sx sy ts (k + 1) (Some (k, hitDist sx sy t))
      else checkHit_loop sx sy ts (k + 1) c)"
  by (auto simp: closer_def inReach_def hitDist_def Let_def split: option.splits)

lemma closer_Some: "closer sx sy (Some (k, v)) t = (inReach sx sy t \<and> hitDist sx sy t < v)"
  by (simp add: closer_def)

lemma closer_None: "closer sx sy None t = inReach sx sy t"
  by (simp add: closer_def)

lemma closer_trans:
  "closer sx sy c t \<Longrightarrow> inReach sx sy u \<Longrightarrow> hitDist sx sy u \<le> hitDist sx sy t \<Longrightarrow> closer sx sy c u"
  by (auto simp: closer_def split: option.splits)

lemma checkHit_loop_none:
  "\<forall>t \<in> set ts. \<not> closer sx sy c t \<Longrightarrow> checkHit_loop sx sy ts k c = c"
  by (induction ts arbitrary: k) (simp_all add: checkHit_loop_Cons del: checkHit_loop.simps(2))

lemma checkHit_loop_some:
  "\<exists>t \<in> set ts. closer sx sy c t \<Longrightarrow>
   \<exists>i < length ts. closer sx sy c (ts ! i) \<and>
      (\<forall>u \<in> set ts. closer sx sy c u \<longrightarrow> hitDist sx sy (ts ! i) \<le> hitDist sx sy u) \<and>
      checkHit_loop sx sy ts k c = Some (k + i, hitDist sx sy (ts ! i))"
proof (induction ts arbitrary: k c)
  case Nil
  then show ?case by simp
next
  case (Cons t ts)
  show ?case
  proof (cases "closer sx sy c t")
    case True
    note t = True
    let ?c = "Some (k, hitDist sx sy t)"
    show ?thesis
    proof (cases "\<exists>u \<in> set ts. closer sx sy ?c u")
      case True
      then obtain i where i: "i < length ts" "closer sx sy ?c (ts ! i)"
        "\<forall>u \<in> set ts. closer sx sy ?c u \<longrightarrow> hitDist sx sy (ts ! i) \<le> hitDist sx sy u"
        "checkHit_loop sx sy ts (k + 1) ?c = Some (k + 1 + i, hitDist sx sy (ts ! i))"
        using Cons.IH [of ?c "k + 1"] by blast
      have lt: "inReach sx sy (ts ! i)" "hitDist sx sy (ts ! i) < hitDist sx sy t"
        using i(2) by (simp_all add: closer_Some)
      have "closer sx sy c ((t # ts) ! Suc i)"
        using closer_trans [OF t, of "ts ! i"] lt by simp
      moreover have "\<forall>u \<in> set (t # ts). closer sx sy c u \<longrightarrow>
          hitDist sx sy ((t # ts) ! Suc i) \<le> hitDist sx sy u"
        using i(3) lt by (auto simp: closer_Some closer_def)
      moreover have "checkHit_loop sx sy (t # ts) k c =
          Some (k + Suc i, hitDist sx sy ((t # ts) ! Suc i))"
        using t i(4) by (simp add: checkHit_loop_Cons del: checkHit_loop.simps(2))
      ultimately show ?thesis
        using i(1) by (intro exI [of _ "Suc i"]) simp
    next
      case False
      then have "checkHit_loop sx sy ts (k + 1) ?c = ?c"
        by (simp add: checkHit_loop_none)
      moreover have "\<forall>u \<in> set (t # ts). closer sx sy c u \<longrightarrow> hitDist sx sy t \<le> hitDist sx sy u"
        using False by (auto simp: closer_Some closer_def)
      ultimately show ?thesis
        using t by (intro exI [of _ 0]) (simp add: checkHit_loop_Cons del: checkHit_loop.simps(2))
    qed
  next
    case False
    then have "\<exists>u \<in> set ts. closer sx sy c u"
      using Cons.prems by auto
    then obtain i where i: "i < length ts" "closer sx sy c (ts ! i)"
        "\<forall>u \<in> set ts. closer sx sy c u \<longrightarrow> hitDist sx sy (ts ! i) \<le> hitDist sx sy u"
        "checkHit_loop sx sy ts (k + 1) c = Some (k + 1 + i, hitDist sx sy (ts ! i))"
      using Cons.IH [of c "k + 1"] by blast
    then show ?thesis
      using False by (intro exI [of _ "Suc i"]) (simp add: checkHit_loop_Cons del: checkHit_loop.simps(2))
  qed
qed

lemma Math_random_trophies [simp]: "trophies (snd (Math_random st)) = trophies st"
  by (simp add: Math_random_def)

lemma shatter_loop_trophies: "trophies (shatter_loop i n pos st) = trophies st"
proof (induction i n pos st rule: shatter_loop.induct)
  case (1 i fragCount pos st)
  show ?case
  proof (cases "i < fragCount")
    case True
    then show ?thesis
      using "1.IH"
      by (subst shatter_loop.simps) (simp add: Let_def case_prod_beta Math_random_def)
  next
    case False
    then show ?thesis
      by (subst shatter_loop.simps) simp
  qed
qed

lemma shatterTrophy_trophies:
  "trophies (shatterTrophy k st) = (trophies st)[k := (trophies st ! k)\<lparr>alive := False\<rparr>]"
  by (simp add: shatterTrophy_def Let_def shatter_loop_trophies)

text \<open>
  C3. For every query point and every target field: when no live trophy has the query
  point strictly inside its own hit radius, \<open>checkHit\<close> returns null and leaves the field
  as it is; otherwise it returns the position (as it is before the shatter) and the tier of
  a live trophy that has the query point inside its radius and is at least as close to
  it as every other such trophy, and clears the \<open>alive\<close> flag of that trophy only. The
  radius of a spawned trophy is the hit radius of its tier. \<open>checkHit\<close> is a total function:
  no input makes it raise.
\<close>

theorem checkHit_closest:
  "((\<forall>t \<in> set (trophies st). \<not> inReach sx sy t) \<longrightarrow> checkHit sx sy st = (None, st))
   \<and> ((\<exists>t \<in> set (trophies st). inReach sx sy t) \<longrightarrow>
        (\<exists>i < length (trophies st).
           inReach sx sy (trophies st ! i) \<and>
           (\<forall>u \<in> set (trophies st). inReach sx sy u \<longrightarrow>
              hitDist sx sy (trophies st ! i) \<le> hitDist sx sy u) \<and>
           fst (checkHit sx sy st) =
             Some \<lparr>hit_x = screenX (trophies st ! i), hit_y = screenY (trophies st ! i),
                   hit_tier = tier (trophies st ! i)\<rparr> \<and>
           trophies (snd (checkHit sx sy st)) =
             (trophies st)[i := (trophies st ! i)\<lparr>alive := False\<rparr>]))
   \<and> radius (last (trophies (spawnTrophy st))) =
       TIER_HIT_RADIUS (tier (last (trophies (spawnTrophy st))))"
proof (intro conjI impI)
  show "radius (last (trophies (spawnTrophy st))) =
       TIER_HIT_RADIUS (tier (last (trophies (spawnTrophy st))))"
    by (simp add: spawnTrophy_def pickTier_def Math_random_def Let_def case_prod_beta)
next
  assume "\<forall>t \<in> set (trophies st). \<not> inReach sx sy t"
  then have "checkHit_loop sx sy (trophies st) 0 None = None"
    by (intro checkHit_loop_none) (simp add: closer_None)
  then show "checkHit sx sy st = (None, st)"
    by (simp add: checkHit_def)
next
  assume "\<exists>t \<in> set (trophies st). inReach sx sy t"
  then have "\<exists>t \<in> set (trophies st). closer sx sy None t"
    by (simp add: closer_None)
  then obtain i where i: "i < length (trophies st)" "closer sx sy None (trophies st ! i)"
    "\<forall>u \<in> set (trophies st). closer sx sy None u \<longrightarrow>
        hitDist sx sy (trophies st ! i) \<le> hitDist sx sy u"
    "checkHit_loop sx sy (trophies st) 0 None = Some (0 + i, hitDist sx sy (trophies st ! i))"
    using checkHit_loop_some [of "trophies st" sx sy None 0] by blast
  show "\<exists>i < length (trophies st).
           inReach sx sy (trophies st ! i) \<and>
           (\<forall>u \<in> set (trophies st). inReach sx sy u \<longrightarrow>
              hitDist sx sy (trophies st ! i) \<le> hitDist sx sy u) \<and>
           fst (checkHit sx sy st) =
             Some \<lparr>hit_x = screenX (trophies st ! i), hit_y = screenY (trophies st ! i),
                   hit_tier = tier (trophies st ! i)\<rparr> \<and>
           trophies (snd (checkHit sx sy st)) =
             (trophies st)[i := (trophies st ! i)\<lparr>alive := False\<rparr>]"
    using i by (intro exI [of _ i])
      (simp add: closer_None checkHit_def Let_def shatterTrophy_trophies)
qed


lemma sqrt_1600: "sqrt 1600 = 40"
  by (rule real_sqrt_unique) simp_all

lemma sqrt_100: "sqrt 100 = 10"
  by (rule real_sqrt_unique) simp_all

lemma hitDist_A: "hitDist 140 100 trophyA = 40"
  by (simp add: hitDist_def trophyA_def sqrt_1600)

lemma hitDist_B: "hitDist 140 100 trophyB = 10"
  by (simp add: hitDist_def trophyB_def sqrt_100)

lemma hitDist_far: "200 \<le> hitDist 1000 100 t" if "screenX t \<le> 150" for t
proof -
  have "850 \<le> \<bar>1000 - screenX t\<bar>" using that by simp
  also have "\<dots> \<le> hitDist 1000 100 t"
    unfolding hitDist_def by (rule real_sqrt_ge_abs1 [unfolded power2_eq_square])
  finally show ?thesis by simp
qed

theorem checkHit_closest_witness:
  "inReach 140 100 trophyA \<and> inReach 140 100 trophyB
   \<and> hitDist 140 100 trophyB < hitDist 140 100 trophyA
   \<and> fst (checkHit 140 100 field3) = Some \<lparr>hit_x = 150, hit_y = 100, hit_tier = gold\<rparr>
   \<and> trophies (snd (checkHit 140 100 field3)) = [trophyA, trophyB\<lparr>alive := False\<rparr>, trophyC]
   \<and> \<not> inReach 1000 100 trophyA \<and> \<not> inReach 1000 100 trophyB \<and> \<not> inReach 1000 100 trophyC
   \<and> checkHit 1000 100 field3 = (None, field3)"
proof -
  have ts: "trophies field3 = [trophyA, trophyB, trophyC]"
    by (simp add: field3_def)
  have rA: "inReach 140 100 trophyA"
    by (simp add: inReach_def hitDist_A) (simp add: trophyA_def)
  have rB: "inReach 140 100 trophyB"
    by (simp add: inReach_def hitDist_B) (simp add: trophyB_def)
  have rC: "\<not> inReach 140 100 trophyC"
    by (simp add: inReach_def trophyC_def)
  have fA: "\<not> inReach 1000 100 trophyA"
    using hitDist_far [of trophyA] by (simp add: inReach_def trophyA_def)
  have fB: "\<not> inReach 1000 100 trophyB"
    using hitDist_far [of trophyB] by (simp add: inReach_def trophyB_def)
  have fC: "\<not> inReach 1000 100 trophyC"
    by (simp add: inReach_def trophyC_def)
  have miss: "checkHit 1000 100 field3 = (None, field3)"
    using checkHit_closest [of field3 1000 100] fA fB fC by (simp add: ts)
  have ex: "\<exists>t \<in> set (trophies field3). inReach 140 100 t"
    using rB by (simp add: ts)
  have "\<exists>i < length (trophies field3).
           inReach 140 100 (trophies field3 ! i) \<and>
           (\<forall>u \<in> set (trophies field3). inReach 140 100 u \<longrightarrow>
              hitDist 140 100 (trophies field3 ! i) \<le> hitDist 140 100 u) \<and>
           fst (checkHit 140 100 field3) =
             Some \<lparr>hit_x = screenX (trophies field3 ! i), hit_y = screenY (trophies field3 ! i),
                   hit_tier = tier (trophies field3 ! i)\<rparr> \<and>
           trophies (snd (checkHit 140 100 field3)) =
             (trophies field3)[i := (trophies field3 ! i)\<lparr>alive := False\<rparr>]"
    using checkHit_closest [of field3 140 100] ex by blast
  then obtain i where i: "i < length (trophies field3)"
    "inReach 140 100 (trophies field3 ! i)"
    "\<forall>u \<in> set (trophies field3). inReach 140 100 u \<longrightarrow>
        hitDist 140 100 (trophies field3 ! i) \<le> hitDist 140 100 u"
    "fst (checkHit 140 100 field3) =
       Some \<lparr>hit_x = screenX (trophies field3 ! i), hit_y = screenY (trophies field3 ! i),
             hit_tier = tier (trophies field3 ! i)\<rparr>"
    "trophies (snd (checkHit 140 100 field3)) =
       (trophies field3)[i := (trophies field3 ! i)\<lparr>alive := False\<rparr>]"
    by blast
  have "i = 0 \<or> i = 1 \<or> i = 2"
    using i(1) by (auto simp: ts)
  moreover have "i \<noteq> 0"
  proof
    assume "i = 0"
    then have "hitDist 140 100 trophyA \<le> hitDist 140 100 trophyB"
      using i(3) rB by (simp add: ts)
    then show False by (simp add: hitDist_A hitDist_B)
  qed
  moreover have "i \<noteq> 2"
  proof
    assume "i = 2"
    then show False using i(2) rC by (simp add: ts)
  qed
  ultimately have "i = 1" by blast
  then have "fst (checkHit 140 100 field3) = Some \<lparr>hit_x = 150, hit_y = 100, hit_tier = gold\<rparr>"
    and "trophies (snd (checkHit 140 100 field3)) = [trophyA, trophyB\<lparr>alive := False\<rparr>, trophyC]"
    using i(4,5) by (simp_all add: ts) (simp add: trophyB_def)
  then show ?thesis
    using rA rB fA fB fC miss by (simp add: hitDist_A hitDist_B)
qed



subsection \<open>DiscManager: population and restart\<close>

lemma spawnTrophy_frame:
  "fragments (spawnTrophy st) = fragments st"
  "elapsedTime (spawnTrophy st) = elapsedTime st"
  "scene (spawnTrophy st) = scene st"
  by (simp_all add: spawnTrophy_def pickTier_def Math_random_def Let_def case_prod_beta)

lemma start_loop_spec:
  "\<exists>new. trophies (start_loop i st) = trophies st @ new \<and> length new = TARGET_COUNT - i \<and>
         (\<forall>t \<in> set new. alive t) \<and>
         fragments (start_loop i st) = fragments st \<and>
         elapsedTime (start_loop i st) = elapsedTime st"
proof (induction i st rule: start_loop.induct)
  case (1 i st)
  show ?case
  proof (cases "i < TARGET_COUNT")
    case True
    obtain t where t: "trophies (spawnTrophy st) = trophies st @ [t]" "alive t"
      using spawnTrophy_trophies by blast
    obtain new where new: "trophies (start_loop (i + 1) (spawnTrophy st)) = trophies (spawnTrophy st) @ new"
      "length new = TARGET_COUNT - (i + 1)" "\<forall>t \<in> set new. alive t"
      "fragments (start_loop (i + 1) (spawnTrophy st)) = fragments (spawnTrophy st)"
      "elapsedTime (start_loop (i + 1) (spawnTrophy st)) = elapsedTime (spawnTrophy st)"
      using "1.IH" [OF True] by blast
    have step: "start_loop i st = start_loop (i + 1) (spawnTrophy st)"
      using True by (subst start_loop.simps) simp
    show ?thesis
      using True t new
      by (intro exI [of _ "t # new"]) (simp add: step spawnTrophy_frame)
  next
    case False
    then have "start_loop i st = st"
      by (subst start_loop.simps) simp
    with False show ?thesis by simp
  qed
qed

lemma replenish_spec:
  "\<exists>new. trophies (replenish st) = trophies st @ new \<and>
         length new = TARGET_COUNT - length (trophies st) \<and>
         (\<forall>t \<in> set new. alive t) \<and>
         fragments (replenish st) = fragments st \<and>
         elapsedTime (replenish st) = elapsedTime st"
proof (induction st rule: replenish.induct)
  case (1 st)
  show ?case
  proof (cases "length (trophies st) < TARGET_COUNT")
    case True
    obtain t where t: "trophies (spawnTrophy st) = trophies st @ [t]" "alive t"
      using spawnTrophy_trophies by blast
    obtain new where new: "trophies (replenish (spawnTrophy st)) = trophies (spawnTrophy st) @ new"
      "length new = TARGET_COUNT - length (trophies (spawnTrophy st))" "\<forall>t \<in> set new. alive t"
      "fragments (replenish (spawnTrophy st)) = fragments (spawnTrophy st)"
      "elapsedTime (replenish (spawnTrophy st)) = elapsedTime (spawnTrophy st)"
      using "1.IH" [OF True] by blast
    have step: "replenish st = replenish (spawnTrophy st)"
      using True by (subst replenish.simps) simp
    show ?thesis
      using True t new
      by (intro exI [of _ "t # new"]) (simp add: step spawnTrophy_frame)
  next
    case False
    then have "replenish st = st"
      by (subst replenish.simps) simp
    with False show ?thesis by simp
  qed
qed

lemma liveCount_le: "liveCount st \<le> length (trophies st)"
  by (simp add: liveCount_def)

lemma start_counts:
  "length (trophies (start st)) = length (trophies st) + 4"
  "liveCount (start st) = liveCount st + 4"
  "fragments (start st) = fragments st"
  "elapsedTime (start st) = elapsedTime st"
proof -
  obtain new where new: "trophies (start_loop 0 st) = trophies st @ new"
    "length new = TARGET_COUNT - 0" "\<forall>t \<in> set new. alive t"
    "fragments (start_loop 0 st) = fragments st"
    "elapsedTime (start_loop 0 st) = elapsedTime st"
    using start_loop_spec [of 0 st] by blast
  have "filter alive new = new"
    using new(3) by (simp add: filter_id_conv)
  then show "length (trophies (start st)) = length (trophies st) + 4"
    "liveCount (start st) = liveCount st + 4"
    "fragments (start st) = fragments st"
    "elapsedTime (start st) = elapsedTime st"
    using new by (simp_all add: start_def liveCount_def TARGET_COUNT_def)
qed

lemma replenish_elapsedTime: "elapsedTime (replenish st) = elapsedTime st"
  using replenish_spec [of st] by blast

lemma update_elapsedTime: "elapsedTime (update dt st) = elapsedTime st + dt"
  by (simp add: update_def Let_def replenish_elapsedTime)

lemma update_counts:
  assumes "length (trophies st) \<le> TARGET_COUNT"
  shows "length (trophies (update dt st)) = TARGET_COUNT \<and> liveCount (update dt st) = TARGET_COUNT"
proof -
  define st4 where "st4 = st\<lparr>elapsedTime := elapsedTime st + dt,
      fragments := filter (\<lambda>f. \<not> life f \<le> 0) (map (updateFragment dt) (fragments st)),
      trophies := filter alive (map (moveTrophy dt (width (scene st)) (height (scene st))) (trophies st))\<rparr>"
  have upd: "update dt st = replenish st4"
    by (simp add: update_def Let_def st4_def)
  have "length (trophies st4) \<le> length (trophies st)"
    using length_filter_le [of alive "map (moveTrophy dt (width (scene st)) (height (scene st))) (trophies st)"]
    by (simp add: st4_def)
  then have len4: "length (trophies st4) \<le> TARGET_COUNT"
    using assms by simp
  have alive4: "\<forall>t \<in> set (trophies st4). alive t"
    by (simp add: st4_def)
  obtain new where new: "trophies (replenish st4) = trophies st4 @ new"
    "length new = TARGET_COUNT - length (trophies st4)" "\<forall>t \<in> set new. alive t"
    using replenish_spec [of st4] by blast
  have "filter alive (trophies st4 @ new) = trophies st4 @ new"
    using alive4 new(3) by (simp add: filter_id_conv)
  then show ?thesis
    using new len4 by (simp add: upd liveCount_def)
qed

lemma checkHit_length: "length (trophies (snd (checkHit sx sy st))) = length (trophies st)"
  by (simp add: checkHit_def shatterTrophy_trophies Let_def split: option.splits prod.splits)

lemma call_keeps_population:
  assumes "length (trophies st) = TARGET_COUNT"
  shows "length (trophies (applyFieldCall st c)) = TARGET_COUNT"
  using assms update_counts [of st] by (cases c) (simp_all add: checkHit_length)

lemma trace_population:
  "length (trophies st) = TARGET_COUNT \<Longrightarrow> i < length cs \<Longrightarrow>
     length (trophies (fieldTrace st cs ! i)) = TARGET_COUNT \<and>
     (\<forall>dt. cs ! i = FUpdate dt \<longrightarrow> liveCount (fieldTrace st cs ! i) = TARGET_COUNT)"
proof (induction cs arbitrary: st i)
  case Nil
  then show ?case by simp
next
  case (Cons c cs)
  show ?case
  proof (cases i)
    case 0
    then show ?thesis
      using Cons.prems(1) call_keeps_population [of st c] update_counts [of st] by auto
  next
    case (Suc k)
    then show ?thesis
      using Cons.IH [of "applyFieldCall st c" k] Cons.prems call_keeps_population [of st c]
      by simp
  qed
qed

text \<open>
  C4. On a target field with no trophies (freshly constructed, or disposed), after one
  \<open>start()\<close> the live target count is 4, and after any run of update ticks, hit tests and
  viewport resizes that follows, the live target count is at most 4 after every call and
  exactly 4 after every update tick.
\<close>

theorem population_invariant:
  "trophies st = [] \<longrightarrow>
     liveCount (start st) = 4
     \<and> (\<forall>i < length cs.
           liveCount (fieldTrace (start st) cs ! i) \<le> 4 \<and>
           (\<forall>dt. cs ! i = FUpdate dt \<longrightarrow> liveCount (fieldTrace (start st) cs ! i) = 4))"
proof
  assume empty: "trophies st = []"
  have len: "length (trophies (start st)) = TARGET_COUNT"
    by (simp add: start_counts empty TARGET_COUNT_def)
  have live: "liveCount (start st) = 4"
    by (simp add: start_counts) (simp add: liveCount_def empty)
  have "liveCount (fieldTrace (start st) cs ! i) \<le> 4 \<and>
         (\<forall>dt. cs ! i = FUpdate dt \<longrightarrow> liveCount (fieldTrace (start st) cs ! i) = 4)"
    if "i < length cs" for i
    using trace_population [OF len that] liveCount_le [of "fieldTrace (start st) cs ! i"]
    by (simp add: TARGET_COUNT_def)
  with live show "liveCount (start st) = 4
     \<and> (\<forall>i < length cs.
           liveCount (fieldTrace (start st) cs ! i) \<le> 4 \<and>
           (\<forall>dt. cs ! i = FUpdate dt \<longrightarrow> liveCount (fieldTrace (start st) cs ! i) = 4))"
    by blast
qed

theorem population_invariant_witness:
  "trophies field0 = []
   \<and> liveCount (start field0) = 4
   \<and> liveCount (fieldTrace (start field0) [FUpdate (1 / 60), FCheckHit 400 300, FUpdate 100] ! 0) = 4
   \<and> liveCount (fieldTrace (start field0) [FUpdate (1 / 60), FCheckHit 400 300, FUpdate 100] ! 1) \<le> 4
   \<and> liveCount (fieldTrace (start field0) [FUpdate (1 / 60), FCheckHit 400 300, FUpdate 100] ! 2) = 4"
proof -
  let ?cs = "[FUpdate (1 / 60), FCheckHit 400 300, FUpdate 100]"
  have empty: "trophies field0 = []"
    by (simp add: field0_def newDiscManager_def)
  have start4: "liveCount (start field0) = 4"
    using population_invariant [of field0 ?cs] empty by blast
  have inv: "liveCount (fieldTrace (start field0) ?cs ! i) \<le> 4 \<and>
         (\<forall>dt. ?cs ! i = FUpdate dt \<longrightarrow> liveCount (fieldTrace (start field0) ?cs ! i) = 4)"
    if "i < length ?cs" for i
    using population_invariant [of field0 ?cs] empty that by blast
  have "?cs ! 0 = FUpdate (1 / 60) \<longrightarrow> liveCount (fieldTrace (start field0) ?cs ! 0) = 4"
    using inv [of 0] by blast
  then have a: "liveCount (fieldTrace (start field0) ?cs ! 0) = 4"
    by simp
  have b: "liveCount (fieldTrace (start field0) ?cs ! 1) \<le> 4"
    using inv [of 1] by simp
  have "?cs ! 2 = FUpdate 100 \<longrightarrow> liveCount (fieldTrace (start field0) ?cs ! 2) = 4"
    using inv [of 2] by simp
  then have c: "liveCount (fieldTrace (start field0) ?cs ! 2) = 4"
    by simp
  show ?thesis using empty start4 a b c by blast
qed

text \<open>
  C5, as stated, at a concrete input. \<open>start()\<close> does not clear: a second \<open>start()\<close> on a
  started field leaves 8 live targets. The restart does not reset the elapsed-time
  accumulator: after one round tick of 60 seconds, \<open>dispose()\<close> and \<open>start()\<close>, the elapsed
  time is still 60 and the speed bonus is 30, where a freshly started field has bonus 0.
\<close>

theorem restart_counterexample:
  "liveCount (start (start field0)) = 8
   \<and> elapsedTime (start (dispose (update 60 (start field0)))) = 60
   \<and> getSpeedBonus (start (dispose (update 60 (start field0)))) = 30
   \<and> getSpeedBonus (start field0) = 0"
proof -
  have e0: "elapsedTime field0 = 0" and l0: "liveCount field0 = 0"
    by (simp_all add: field0_def newDiscManager_def liveCount_def)
  have e: "elapsedTime (start (dispose (update 60 (start field0)))) = 60"
    by (simp add: start_counts update_elapsedTime dispose_def Let_def e0)
  have "getSpeedBonus (start (dispose (update 60 (start field0)))) = 30"
    unfolding getSpeedBonus_def e
    by (simp add: SPEED_RAMP_INTERVAL_def SPEED_RAMP_AMOUNT_def SPEED_RAMP_MAX_def Let_def)
  moreover have "getSpeedBonus (start field0) = 0"
    by (simp add: getSpeedBonus_def start_counts e0 SPEED_RAMP_INTERVAL_def
        SPEED_RAMP_AMOUNT_def SPEED_RAMP_MAX_def Let_def)
  ultimately show ?thesis
    using e by (simp add: start_counts l0)
qed

text \<open>
  C5, amended. \<open>dispose()\<close> empties the trophy list and the fragment list; \<open>start()\<close> clears
  nothing and adds exactly 4 live targets, leaving the fragments as they are. Hence after
  \<open>dispose()\<close>, as on a freshly constructed field, \<open>start()\<close> yields exactly 4 targets, all
  live, and no fragments; on a freshly constructed field the speed bonus after \<open>start()\<close>
  is 0.
\<close>

theorem restart_resets_lists:
  "trophies (dispose st) = [] \<and> fragments (dispose st) = []
   \<and> liveCount (start (dispose st)) = 4
   \<and> length (trophies (start (dispose st))) = 4
   \<and> fragments (start (dispose st)) = []
   \<and> liveCount (start (newDiscManager sc draws)) = 4
   \<and> fragments (start (newDiscManager sc draws)) = []
   \<and> getSpeedBonus (start (newDiscManager sc draws)) = 0
   \<and> liveCount (start st) = liveCount st + 4
   \<and> fragments (start st) = fragments st"
proof -
  have d: "trophies (dispose st) = []" "fragments (dispose st) = []"
    by (simp_all add: dispose_def Let_def)
  have n: "trophies (newDiscManager sc draws) = []" "fragments (newDiscManager sc draws) = []"
    "elapsedTime (newDiscManager sc draws) = 0"
    by (simp_all add: newDiscManager_def)
  have "elapsedTime (start (newDiscManager sc draws)) = 0"
    by (simp add: start_counts n)
  then have "getSpeedBonus (start (newDiscManager sc draws)) = 0"
    by (simp add: getSpeedBonus_def Let_def SPEED_RAMP_MAX_def)
  moreover have "liveCount (dispose st) = 0" "liveCount (newDiscManager sc draws) = 0"
    by (simp_all add: liveCount_def d n)
  ultimately show ?thesis
    by (simp add: start_counts d n)
qed



subsection \<open>GameManager: starting a round\<close>








end
